theory Spec2Isabelle
  imports Complex_Main
begin

section \<open>JavaScript numbers\<close>

text \<open>
  A JavaScript Number is an IEEE-754 double. The embedding keeps the special values
  (\<open>NaN\<close>, \<open>Infinity\<close>, \<open>-Infinity\<close>) and what the arithmetic operators do with them,
  and idealises the finite values as exact reals: a finite result is neither rounded nor
  does it overflow. So a position within a rounding error of a cell boundary can fall on
  the other side of it here, and the theorems speak of magnitudes at which no operation of
  the codec overflows in doubles (the one on the keys at and beyond the poles has the
  bound among its hypotheses). \<open>Math.PI\<close> is the double nearest to \<open>pi\<close>, the rational
  \<open>884279719003555 / 2^48\<close>, and \<open>Math.cos\<close> is \<open>cos\<close>: at latitude 90 the cosine of
  \<open>lat * Math.PI / 180\<close> is \<open>6.1e-17\<close>, as it is in JavaScript, and not zero.
  The two zeros are one value; a zero divisor is taken as \<open>+0\<close>.
\<close>

datatype jsnum = Num real | PosInf | NegInf | NaN

fun jneg :: "jsnum \<Rightarrow> jsnum" where
  "jneg (Num a) = Num (- a)"
| "jneg PosInf = NegInf"
| "jneg NegInf = PosInf"
| "jneg NaN = NaN"

fun jadd :: "jsnum \<Rightarrow> jsnum \<Rightarrow> jsnum" where
  "jadd (Num a) (Num b) = Num (a + b)"
| "jadd NaN _ = NaN"
| "jadd _ NaN = NaN"
| "jadd PosInf NegInf = NaN"
| "jadd NegInf PosInf = NaN"
| "jadd PosInf _ = PosInf"
| "jadd _ PosInf = PosInf"
| "jadd NegInf _ = NegInf"
| "jadd _ NegInf = NegInf"

definition jsub :: "jsnum \<Rightarrow> jsnum \<Rightarrow> jsnum" where
  "jsub a b = jadd a (jneg b)"

text \<open>An infinity times or over a finite number: the sign of the finite operand decides.\<close>

definition inf_signed :: "bool \<Rightarrow> jsnum" where
  "inf_signed negative = (if negative then NegInf else PosInf)"

fun jmul :: "jsnum \<Rightarrow> jsnum \<Rightarrow> jsnum" where
  "jmul (Num a) (Num b) = Num (a * b)"
| "jmul NaN _ = NaN"
| "jmul _ NaN = NaN"
| "jmul PosInf (Num b) = (if b = 0 then NaN else inf_signed (b < 0))"
| "jmul NegInf (Num b) = (if b = 0 then NaN else inf_signed (0 < b))"
| "jmul (Num a) PosInf = (if a = 0 then NaN else inf_signed (a < 0))"
| "jmul (Num a) NegInf = (if a = 0 then NaN else inf_signed (0 < a))"
| "jmul PosInf PosInf = PosInf"
| "jmul NegInf NegInf = PosInf"
| "jmul PosInf NegInf = NegInf"
| "jmul NegInf PosInf = NegInf"

fun jdiv :: "jsnum \<Rightarrow> jsnum \<Rightarrow> jsnum" where
  "jdiv (Num a) (Num b) =
     (if b = 0 then (if a = 0 then NaN else inf_signed (a < 0)) else Num (a / b))"
| "jdiv NaN _ = NaN"
| "jdiv _ NaN = NaN"
| "jdiv (Num a) PosInf = Num 0"
| "jdiv (Num a) NegInf = Num 0"
| "jdiv PosInf (Num b) = inf_signed (b < 0)"
| "jdiv NegInf (Num b) = inf_signed (0 \<le> b)"
| "jdiv PosInf PosInf = NaN"
| "jdiv PosInf NegInf = NaN"
| "jdiv NegInf PosInf = NaN"
| "jdiv NegInf NegInf = NaN"

fun Math_floor :: "jsnum \<Rightarrow> jsnum" where
  "Math_floor (Num a) = Num (of_int \<lfloor>a\<rfloor>)"
| "Math_floor x = x"

fun Math_ceil :: "jsnum \<Rightarrow> jsnum" where
  "Math_ceil (Num a) = Num (of_int \<lceil>a\<rceil>)"
| "Math_ceil x = x"

text \<open>\<open>Math.round\<close> rounds to the nearest integer, a tie towards \<open>+Infinity\<close>.\<close>

fun Math_round :: "jsnum \<Rightarrow> jsnum" where
  "Math_round (Num a) = Num (of_int \<lfloor>a + 1 / 2\<rfloor>)"
| "Math_round x = x"

fun Math_cos :: "jsnum \<Rightarrow> jsnum" where
  "Math_cos (Num a) = Num (cos a)"
| "Math_cos x = NaN"

fun Math_min :: "jsnum \<Rightarrow> jsnum \<Rightarrow> jsnum" where
  "Math_min NaN _ = NaN"
| "Math_min _ NaN = NaN"
| "Math_min NegInf _ = NegInf"
| "Math_min _ NegInf = NegInf"
| "Math_min PosInf y = y"
| "Math_min x PosInf = x"
| "Math_min (Num a) (Num b) = Num (min a b)"


text \<open>The comparison operators; every comparison with \<open>NaN\<close> is false.\<close>

fun jlt :: "jsnum \<Rightarrow> jsnum \<Rightarrow> bool" where
  "jlt (Num a) (Num b) = (a < b)"
| "jlt NaN _ = False"
| "jlt _ NaN = False"
| "jlt _ NegInf = False"
| "jlt PosInf _ = False"
| "jlt NegInf _ = True"
| "jlt _ PosInf = True"

fun jle :: "jsnum \<Rightarrow> jsnum \<Rightarrow> bool" where
  "jle (Num a) (Num b) = (a \<le> b)"
| "jle NaN _ = False"
| "jle _ NaN = False"
| "jle NegInf _ = True"
| "jle _ PosInf = True"
| "jle _ NegInf = False"
| "jle PosInf _ = False"


definition jge :: "jsnum \<Rightarrow> jsnum \<Rightarrow> bool" where
  "jge a b = jle b a"

section \<open>Number.prototype.toFixed(6) and parseFloat\<close>

text \<open>
  \<open>x.toFixed(6)\<close> is a string of one of four shapes, which the datatype keeps apart:
  \<^item> \<open>Digits neg n\<close>: an optional minus sign (\<open>neg\<close>, set when \<open>x < 0\<close>) and the decimal
    digits of the integer \<open>n\<close> with a point before the last six, where \<open>n\<close> is the
    integer closest to \<open>|x| * 10^6\<close>, the larger one on a tie;
    so \<open>Digits False 1797\<close> is \<open>"0.001797"\<close> and \<open>Digits True 0\<close> is \<open>"-0.000000"\<close>;
  \<^item> \<open>Expo x\<close>: for \<open>|x| \<ge> 10^21\<close>, the exponent notation of \<open>x\<close> itself;
  \<^item> \<open>StrNaN\<close>: \<open>"NaN"\<close>;
  \<^item> \<open>StrInf neg\<close>: \<open>"Infinity"\<close> or \<open>"-Infinity"\<close>.
  Two such strings are equal exactly when the two values of the datatype are.
  \<open>parseFloat\<close> reads each shape back.
\<close>

datatype fixed = Digits bool nat | Expo real | StrNaN | StrInf bool

fun toFixed6 :: "jsnum \<Rightarrow> fixed" where
  "toFixed6 (Num x) =
     (if 10 ^ 21 \<le> \<bar>x\<bar> then Expo x
      else Digits (x < 0) (nat \<lfloor>\<bar>x\<bar> * 10 ^ 6 + 1 / 2\<rfloor>))"
| "toFixed6 NaN = StrNaN"
| "toFixed6 PosInf = StrInf False"
| "toFixed6 NegInf = StrInf True"

fun parseFloat :: "fixed \<Rightarrow> jsnum" where
  "parseFloat (Digits neg n) = Num ((if neg then - 1 else 1) * real n / 10 ^ 6)"
| "parseFloat (Expo x) = Num x"
| "parseFloat StrNaN = NaN"
| "parseFloat (StrInf neg) = inf_signed neg"


section \<open>Cell codec (fogGrid.js)\<close>

definition CELL_SIZE_METERS :: jsnum where
  "CELL_SIZE_METERS = Num 50"

definition METERS_PER_DEG_LAT :: jsnum where
  "METERS_PER_DEG_LAT = Num 111320"

definition REVEAL_RADIUS :: int where
  "REVEAL_RADIUS = 2"

definition CELL_SIZE_LAT :: jsnum where
  "CELL_SIZE_LAT = jdiv CELL_SIZE_METERS METERS_PER_DEG_LAT"

definition PI_double :: real where
  "PI_double = 884279719003555 / 2 ^ 48"

definition Math_PI :: jsnum where
  "Math_PI = Num PI_double"

definition cellSizeLng :: "jsnum \<Rightarrow> jsnum" where
  "cellSizeLng lat =
     jdiv CELL_SIZE_METERS
       (jmul METERS_PER_DEG_LAT (Math_cos (jdiv (jmul lat Math_PI) (Num 180))))"

text \<open>
  A cell key is the template string \<open>`${a}_${b}`\<close> of two \<open>toFixed(6)\<close> results;
  \<open>Key a b\<close> keeps the two parts, which is what \<open>key.split('_')\<close> gives back (no shape
  of \<^typ>\<open>fixed\<close> contains an underscore). The explored set is a set of such keys:
  what \<open>revealAt\<close> adds and \<open>saveExploredCells\<close> writes.
\<close>

datatype cell_key = Key fixed fixed

definition getCellKey :: "jsnum \<Rightarrow> jsnum \<Rightarrow> cell_key" where
  "getCellKey lat lng =
     (let cellLat = jmul (Math_floor (jdiv lat CELL_SIZE_LAT)) CELL_SIZE_LAT;
          cLng = cellSizeLng lat;
          cellLng = jmul (Math_floor (jdiv lng cLng)) cLng
      in Key (toFixed6 cellLat) (toFixed6 cellLng))"

record bounds =
  south :: jsnum
  north :: jsnum
  west :: jsnum
  east :: jsnum

fun getCellBounds :: "cell_key \<Rightarrow> bounds" where
  "getCellBounds (Key latStr lngStr) =
     (let lat = parseFloat latStr;
          lng = parseFloat lngStr;
          cLng = cellSizeLng lat
      in \<lparr>south = lat, north = jadd lat CELL_SIZE_LAT, west = lng, east = jadd lng cLng\<rparr>)"

text \<open>
  The position of the scenario, \<open>(42.6977, 23.3219)\<close>, and the square of the distance in
  metres from a position to another in the conversion the code itself uses: 111320
  metres to a degree of latitude, and that times \<open>cos lat\<close> to a degree of longitude.
\<close>

definition scenario_lat :: real where
  "scenario_lat = 426977 / 10 ^ 4"

definition scenario_lng :: real where
  "scenario_lng = 233219 / 10 ^ 4"

definition sq_metres :: "real \<Rightarrow> real \<Rightarrow> real \<Rightarrow> real \<Rightarrow> real" where
  "sq_metres lat lng lat' lng' =
     ((lat' - lat) * 111320) ^ 2 + ((lng' - lng) * (111320 * cos (lat * PI_double / 180))) ^ 2"

section \<open>Reveal engine (fogGrid.js)\<close>

text \<open>
  The two nested \<open>for\<close> loops of \<open>getRevealCells\<close> run \<open>dy\<close> and then \<open>dx\<close> over the
  integers from \<open>-REVEAL_RADIUS\<close> to \<open>REVEAL_RADIUS\<close>, pushing a key for each offset
  that passes the test, in that order.
\<close>

definition getRevealCells :: "jsnum \<Rightarrow> jsnum \<Rightarrow> cell_key list" where
  "getRevealCells lat lng =
     (let cLng = cellSizeLng lat
      in concat (map (\<lambda>dy. concat (map (\<lambda>dx.
              if dx * dx + dy * dy \<le> REVEAL_RADIUS * REVEAL_RADIUS + 1
              then [getCellKey (jadd lat (jmul (Num (of_int dy)) CELL_SIZE_LAT))
                               (jadd lng (jmul (Num (of_int dx)) cLng))]
              else [])
            [- REVEAL_RADIUS..REVEAL_RADIUS]))
          [- REVEAL_RADIUS..REVEAL_RADIUS]))"

text \<open>
  The key that one turn of the inner loop pushes for the pair \<open>(dx, dy)\<close>: the body of the
  loop on its own. It is the key of the point \<open>dy\<close> latitude steps north of the position
  and \<open>dx\<close> longitude steps east, the step being that of the position's latitude, while
  \<open>getCellKey\<close> divides by the step of the latitude of the point it is given. So it need
  not be the cell \<open>dx\<close> columns and \<open>dy\<close> rows away from the cell of the position.
\<close>

definition pushed_key :: "jsnum \<Rightarrow> jsnum \<Rightarrow> int \<Rightarrow> int \<Rightarrow> cell_key" where
  "pushed_key lat lng dx dy =
     getCellKey (jadd lat (jmul (Num (of_int dy)) CELL_SIZE_LAT))
                (jadd lng (jmul (Num (of_int dx)) (cellSizeLng lat)))"

text \<open>
  A JavaScript \<open>Set\<close> keeps its elements in insertion order without duplicates: a list,
  to which \<open>add\<close> appends an element that is not yet there. \<open>[...cells]\<close> is that list.
\<close>

definition set_has :: "'a list \<Rightarrow> 'a \<Rightarrow> bool" where
  "set_has s k = (k \<in> set s)"

definition set_add :: "'a list \<Rightarrow> 'a \<Rightarrow> 'a list" where
  "set_add s k = (if k \<in> set s then s else s @ [k])"

definition new_Set :: "'a list \<Rightarrow> 'a list" where
  "new_Set xs = foldl set_add [] xs"

subsection \<open>localStorage\<close>

text \<open>
  The browser's \<open>localStorage\<close>: the stored items, whether access is denied (every call
  then throws), which writes the quota rejects (\<open>setItem\<close> then throws), and a log of
  the \<open>setItem\<close> calls made, so that a write that was attempted can be told from none.
\<close>

datatype js_error = SyntaxError | TypeError | IndexSizeError | DOMException

record local_storage =
  items :: "string \<rightharpoonup> string"
  denied :: bool
  rejects :: "string \<Rightarrow> string \<Rightarrow> bool"
  setItem_calls :: "(string \<times> string) list"

definition localStorage_getItem :: "local_storage \<Rightarrow> string \<Rightarrow> js_error + string option" where
  "localStorage_getItem ls k = (if denied ls then Inl DOMException else Inr (items ls k))"

definition localStorage_setItem ::
  "local_storage \<Rightarrow> string \<Rightarrow> string \<Rightarrow> js_error option \<times> local_storage" where
  "localStorage_setItem ls k v =
     (let called = ls\<lparr>setItem_calls := setItem_calls ls @ [(k, v)]\<rparr>
      in if denied ls \<or> rejects ls k v then (Some DOMException, called)
         else (None, called\<lparr>items := (items ls)(k \<mapsto> v)\<rparr>))"

text \<open>A storage that holds nothing and accepts every call.\<close>

definition empty_storage :: local_storage where
  "empty_storage =
     \<lparr>items = Map.empty, denied = False, rejects = (\<lambda>k v. False), setItem_calls = []\<rparr>"

definition STORAGE_KEY :: string where
  "STORAGE_KEY = ''uncover_explored_cells''"

text \<open>
  \<open>JSON.parse\<close> and \<open>JSON.stringify\<close> are the engine's and are parameters here. Of the
  value \<open>JSON.parse\<close> returns, \<open>new Set(...)\<close> only asks whether it is \<open>null\<close>, iterable
  (an array, with its elements, or a string, with its characters) or neither (a
  number, a boolean, an object), in which case it throws a \<open>TypeError\<close>.
\<close>

datatype 'a parsed = Nullish | Iterable "'a list" | NotIterable

fun new_Set_from :: "'a parsed \<Rightarrow> js_error + 'a list" where
  "new_Set_from Nullish = Inr []"
| "new_Set_from (Iterable xs) = Inr (new_Set xs)"
| "new_Set_from NotIterable = Inl TypeError"

text \<open>The body of the \<open>try\<close> block of \<open>loadExploredCells\<close>; the empty string is falsy.\<close>

definition loadExploredCells_try ::
  "(string \<Rightarrow> js_error + 'a parsed) \<Rightarrow> local_storage \<Rightarrow> js_error + 'a list" where
  "loadExploredCells_try JSON_parse ls =
     (case localStorage_getItem ls STORAGE_KEY of
        Inl e \<Rightarrow> Inl e
      | Inr None \<Rightarrow> Inr []
      | Inr (Some data) \<Rightarrow>
          if data = [] then Inr []
          else (case JSON_parse data of
                  Inl e \<Rightarrow> Inl e
                | Inr v \<Rightarrow> new_Set_from v))"

text \<open>What the caller of \<open>loadExploredCells\<close> gets: \<open>Inl\<close> would be an exception.\<close>

definition loadExploredCells ::
  "(string \<Rightarrow> js_error + 'a parsed) \<Rightarrow> local_storage \<Rightarrow> js_error + 'a list" where
  "loadExploredCells JSON_parse ls =
     (case loadExploredCells_try JSON_parse ls of
        Inl e \<Rightarrow> Inr []
      | Inr cells \<Rightarrow> Inr cells)"

text \<open>A parser that knows two texts, for running \<open>loadExploredCells\<close> on examples.\<close>

definition sample_parse :: "string \<Rightarrow> js_error + nat parsed" where
  "sample_parse text =
     (if text = ''[1,2,1]'' then Inr (Iterable [1, 2, 1])
      else if text = ''null'' then Inr Nullish
      else Inl SyntaxError)"

definition saveExploredCells ::
  "('a list \<Rightarrow> string) \<Rightarrow> 'a list \<Rightarrow> local_storage \<Rightarrow> local_storage" where
  "saveExploredCells JSON_stringify cells ls =
     (case localStorage_setItem ls STORAGE_KEY (JSON_stringify cells) of
        (Some e, ls') \<Rightarrow> ls'
      | (None, ls') \<Rightarrow> ls')"

subsection \<open>revealAt\<close>

fun reveal_loop :: "cell_key list \<Rightarrow> cell_key list \<times> bool \<Rightarrow> cell_key list \<times> bool" where
  "reveal_loop [] st = st"
| "reveal_loop (key # rest) (exploredCells, changed) =
     (if \<not> set_has exploredCells key
      then reveal_loop rest (set_add exploredCells key, True)
      else reveal_loop rest (exploredCells, changed))"

text \<open>
  \<open>revealAt\<close> mutates the set it is given and may write to \<open>localStorage\<close>; the model
  returns \<open>changed\<close> with the set and the storage after the call.
\<close>

definition revealAt ::
  "(cell_key list \<Rightarrow> string) \<Rightarrow> jsnum \<Rightarrow> jsnum \<Rightarrow> cell_key list \<Rightarrow> local_storage
     \<Rightarrow> bool \<times> cell_key list \<times> local_storage" where
  "revealAt JSON_stringify lat lng exploredCells ls =
     (let newCells = getRevealCells lat lng;
          (cells', changed) = reveal_loop newCells (exploredCells, False)
      in if changed then (changed, cells', saveExploredCells JSON_stringify cells' ls)
         else (changed, cells', ls))"

text \<open>A sequence of \<open>revealAt\<close> calls on the same set and storage, one per position.\<close>

fun revealAt_sequence ::
  "(cell_key list \<Rightarrow> string) \<Rightarrow> (jsnum \<times> jsnum) list \<Rightarrow> cell_key list \<Rightarrow> local_storage
     \<Rightarrow> cell_key list \<times> local_storage" where
  "revealAt_sequence JSON_stringify [] cells ls = (cells, ls)"
| "revealAt_sequence JSON_stringify ((lat, lng) # rest) cells ls =
     (case revealAt JSON_stringify lat lng cells ls of
        (changed, cells', ls') \<Rightarrow> revealAt_sequence JSON_stringify rest cells' ls')"

section \<open>Coverage estimator (fogGrid.js)\<close>

fun exploredInArea_loop ::
  "cell_key list \<Rightarrow> jsnum \<Rightarrow> jsnum \<Rightarrow> jsnum \<Rightarrow> jsnum \<Rightarrow> nat \<Rightarrow> nat" where
  "exploredInArea_loop [] centerLat centerLng latRange lngRange n = n"
| "exploredInArea_loop (Key latStr lngStr # rest) centerLat centerLng latRange lngRange n =
     (let lat = parseFloat latStr;
          lng = parseFloat lngStr
      in if jge lat (jsub centerLat latRange) \<and> jle lat (jadd centerLat latRange)
            \<and> jge lng (jsub centerLng lngRange) \<and> jle lng (jadd centerLng lngRange)
         then exploredInArea_loop rest centerLat centerLng latRange lngRange (n + 1)
         else exploredInArea_loop rest centerLat centerLng latRange lngRange n)"

definition latRange_of :: "jsnum \<Rightarrow> jsnum" where
  "latRange_of radiusMeters = jdiv radiusMeters METERS_PER_DEG_LAT"

definition lngRange_of :: "jsnum \<Rightarrow> jsnum \<Rightarrow> jsnum" where
  "lngRange_of centerLat radiusMeters =
     jdiv radiusMeters
       (jmul METERS_PER_DEG_LAT (Math_cos (jdiv (jmul centerLat Math_PI) (Num 180))))"

text \<open>
  The estimated number of cells of the bounding box, \<open>latSteps * lngSteps\<close>. The radius
  is always passed here; the default of the source is \<open>Num 1000\<close>.
\<close>

definition totalCells_of :: "jsnum \<Rightarrow> jsnum \<Rightarrow> jsnum" where
  "totalCells_of centerLat radiusMeters =
     (let latRange = latRange_of radiusMeters;
          lngRange = lngRange_of centerLat radiusMeters;
          cLng = cellSizeLng centerLat;
          latSteps = Math_ceil (jdiv (jmul latRange (Num 2)) CELL_SIZE_LAT);
          lngSteps = Math_ceil (jdiv (jmul lngRange (Num 2)) cLng)
      in jmul latSteps lngSteps)"

definition getCoverage :: "cell_key list \<Rightarrow> jsnum \<Rightarrow> jsnum \<Rightarrow> jsnum \<Rightarrow> jsnum" where
  "getCoverage exploredCells centerLat centerLng radiusMeters =
     (let latRange = latRange_of radiusMeters;
          lngRange = lngRange_of centerLat radiusMeters;
          totalCells = totalCells_of centerLat radiusMeters
      in if totalCells = Num 0 then Num 0
         else
           (let exploredInArea =
                  exploredInArea_loop exploredCells centerLat centerLng latRange lngRange 0
            in Math_min (Num 100)
                 (Math_round (jmul (jdiv (Num (real exploredInArea)) totalCells) (Num 100)))))"

text \<open>
  The test of the loop of \<open>getCoverage\<close> on one key, and a set of 224 keys
  \<open>"0.000000_0.000000"\<close>, \<open>"0.000000_0.000001"\<close>, ..., \<open>"0.000000_0.000223"\<close>.
\<close>

definition in_area :: "jsnum \<Rightarrow> jsnum \<Rightarrow> jsnum \<Rightarrow> jsnum \<Rightarrow> cell_key \<Rightarrow> bool" where
  "in_area centerLat centerLng latRange lngRange key =
     (case key of Key latStr lngStr \<Rightarrow>
        jge (parseFloat latStr) (jsub centerLat latRange)
        \<and> jle (parseFloat latStr) (jadd centerLat latRange)
        \<and> jge (parseFloat lngStr) (jsub centerLng lngRange)
        \<and> jle (parseFloat lngStr) (jadd centerLng lngRange))"

definition sample_cells :: "cell_key list" where
  "sample_cells = map (\<lambda>i. Key (Digits False 0) (Digits False i)) [0..<224]"

section \<open>Fog overlay renderer (FogCanvasLayer)\<close>

text \<open>
  The Leaflet map is the host's: the layer reads its pixel size, its geographic bounds
  (\<open>getBounds().getSouth()\<close> and so on) and its two projections, taken here as total
  functions. A repaint is the sequence of operations it performs on the canvas and its
  2D context.
\<close>

record point =
  px :: jsnum
  py :: jsnum

record leaflet_map =
  getSize :: point
  getBounds :: bounds
  latLngToContainerPoint :: "jsnum \<times> jsnum \<Rightarrow> point"
  containerPointToLayerPoint :: "jsnum \<times> jsnum \<Rightarrow> point"











record fog_layer =
  exploredCells :: "cell_key list"
  the_map :: "leaflet_map option"
  has_canvas :: bool




text \<open>
  The reading of "the bounds intersect the viewport expanded by the margin": the two
  closed rectangles of the latitude-longitude plane have a point in common.
\<close>

definition inside :: "bounds \<Rightarrow> real \<times> real \<Rightarrow> bool" where
  "inside r p =
     (jle (south r) (Num (fst p)) \<and> jle (Num (fst p)) (north r)
      \<and> jle (west r) (Num (snd p)) \<and> jle (Num (snd p)) (east r))"







section \<open>Enclosing the cosine\<close>

text \<open>
  Two functions that serve the proofs, not the program. \<open>cos_tail y k n\<close> is the Taylor
  polynomial of the cosine in \<open>y = x^2\<close>, in Horner form from the term of index \<open>k\<close> on, with
  \<open>n\<close> further terms; \<open>cos_tail_chk yl yh k c cs\<close> checks a list of intervals, one for each
  level of that Horner form evaluated on \<open>yl \<le> y \<le> yh\<close>, the innermost level being \<open>1\<close>.
\<close>

fun cos_tail :: "real \<Rightarrow> nat \<Rightarrow> nat \<Rightarrow> real" where
  "cos_tail y k 0 = 1"
| "cos_tail y k (Suc n) =
     1 - y / (real (2 * k + 1) * real (2 * k + 2)) * cos_tail y (Suc k) n"

fun cos_tail_chk ::
  "real \<Rightarrow> real \<Rightarrow> nat \<Rightarrow> real \<times> real \<Rightarrow> (real \<times> real) list \<Rightarrow> bool" where
  "cos_tail_chk yl yh k c [] = (c = (1, 1))"
| "cos_tail_chk yl yh k c (c' # cs) =
     (0 \<le> fst c' \<and>
      fst c \<le> 1 - yh * snd c' / (real (2 * k + 1) * real (2 * k + 2)) \<and>
      1 - yl * fst c' / (real (2 * k + 1) * real (2 * k + 2)) \<le> snd c \<and>
      cos_tail_chk yl yh (Suc k) c' cs)"

section \<open>Facts about the codec\<close>

lemma CELL_SIZE_LAT_Num: "CELL_SIZE_LAT = Num (50 / 111320)"
  by (simp add: CELL_SIZE_LAT_def CELL_SIZE_METERS_def METERS_PER_DEG_LAT_def)

lemma cellSizeLng_Num:
  assumes "cos (lat * PI_double / 180) \<noteq> 0"
  shows "cellSizeLng (Num lat) = Num (50 / (111320 * cos (lat * PI_double / 180)))"
  using assms
  by (simp add: cellSizeLng_def CELL_SIZE_METERS_def METERS_PER_DEG_LAT_def Math_PI_def)

lemma getCellKey_Num:
  assumes "cos (lat * PI_double / 180) \<noteq> 0"
  shows "getCellKey (Num lat) (Num lng) =
     Key (toFixed6 (Num (of_int \<lfloor>lat / (50 / 111320)\<rfloor> * (50 / 111320))))
         (toFixed6 (Num (of_int \<lfloor>lng / (50 / (111320 * cos (lat * PI_double / 180)))\<rfloor>
                          * (50 / (111320 * cos (lat * PI_double / 180))))))"
  using assms
  by (simp add: getCellKey_def cellSizeLng_Num CELL_SIZE_LAT_Num Let_def)

section \<open>Enclosures of the cosine\<close>

lemma cos_taylor_bound:
  fixes x :: real
  assumes "0 < x" and "0 < n"
  shows "\<bar>cos x - (\<Sum>m<n. cos_coeff m * x ^ m)\<bar> \<le> x ^ n / fact n"
proof -
  obtain t where "cos x = (\<Sum>m<n. cos_coeff m * x ^ m) + (cos (t + 1 / 2 * real n * pi) / fact n) * x ^ n"
    using Maclaurin_cos_expansion2 [OF assms] by blast
  then have "cos x - (\<Sum>m<n. cos_coeff m * x ^ m) = cos (t + 1 / 2 * real n * pi) * (x ^ n / fact n)"
    by simp
  then have "\<bar>cos x - (\<Sum>m<n. cos_coeff m * x ^ m)\<bar> = \<bar>cos (t + 1 / 2 * real n * pi)\<bar> * (x ^ n / fact n)"
    using assms by (simp add: abs_mult)
  also have "\<dots> \<le> 1 * (x ^ n / fact n)"
    using assms by (intro mult_right_mono) simp_all
  finally show ?thesis by simp
qed

lemma cos_coeff_even_terms:
  fixes x :: real
  shows "(\<Sum>m<2 * n. cos_coeff m * x ^ m) = (\<Sum>k<n. (- 1) ^ k * x ^ (2 * k) / fact (2 * k))"
proof (induction n)
  case 0
  show ?case by simp
next
  case (Suc n)
  have "(\<Sum>m<2 * Suc n. cos_coeff m * x ^ m) =
      (\<Sum>m<2 * n. cos_coeff m * x ^ m) + cos_coeff (2 * n) * x ^ (2 * n)
        + cos_coeff (Suc (2 * n)) * x ^ Suc (2 * n)"
    by simp
  also have "cos_coeff (2 * n) = (- 1) ^ n / fact (2 * n)"
    by (simp add: cos_coeff_def)
  also have "cos_coeff (Suc (2 * n)) = 0"
    by (simp add: cos_coeff_def)
  finally show ?case using Suc.IH by simp
qed

lemma cos_tail_sum:
  "cos_tail y k n = (\<Sum>j\<le>n. (- 1) ^ j * y ^ j * fact (2 * k) / fact (2 * (k + j)))"
proof (induction n arbitrary: k)
  case 0
  show ?case by simp
next
  case (Suc n)
  have "(fact (2 * Suc k) :: real) = real (2 * k + 2) * (real (2 * k + 1) * fact (2 * k))"
    by simp
  then have ratio: "fact (2 * Suc k) / (real (2 * k + 1) * real (2 * k + 2)) = (fact (2 * k) :: real)"
    by (simp del: fact_Suc of_nat_add of_nat_mult)
  have "cos_tail y k (Suc n) =
      1 - y / (real (2 * k + 1) * real (2 * k + 2))
          * (\<Sum>j\<le>n. (- 1) ^ j * y ^ j * fact (2 * Suc k) / fact (2 * (Suc k + j)))"
    by (simp add: Suc.IH)
  also have "y / (real (2 * k + 1) * real (2 * k + 2))
          * (\<Sum>j\<le>n. (- 1) ^ j * y ^ j * fact (2 * Suc k) / fact (2 * (Suc k + j)))
      = (\<Sum>j\<le>n. (- 1) ^ j * y ^ Suc j
            * (fact (2 * Suc k) / (real (2 * k + 1) * real (2 * k + 2)))
            / fact (2 * (k + Suc j)))"
    by (simp add: sum_distrib_left field_simps)
  also have "\<dots> = (\<Sum>j\<le>n. (- 1) ^ j * y ^ Suc j * fact (2 * k) / fact (2 * (k + Suc j)))"
    unfolding ratio by simp
  finally have "cos_tail y k (Suc n) =
      1 - (\<Sum>j\<le>n. (- 1) ^ j * y ^ Suc j * fact (2 * k) / fact (2 * (k + Suc j)))" .
  also have "\<dots> = 1 + (\<Sum>j\<le>n. (- 1) ^ Suc j * y ^ Suc j * fact (2 * k) / fact (2 * (k + Suc j)))"
    by (simp add: sum_negf)
  also have "\<dots> = (\<Sum>j\<le>Suc n. (- 1) ^ j * y ^ j * fact (2 * k) / fact (2 * (k + j)))"
    by (simp add: sum.atMost_Suc_shift del: sum.atMost_Suc power_Suc)
  finally show ?case .
qed

lemma cos_tail_enclosure:
  fixes x :: real
  assumes "0 < x"
  shows "\<bar>cos x - cos_tail (x ^ 2) 0 n\<bar> \<le> x ^ (2 * Suc n) / fact (2 * Suc n)"
proof -
  have "cos_tail (x ^ 2) 0 n = (\<Sum>j\<le>n. (- 1) ^ j * x ^ (2 * j) / fact (2 * j))"
    by (simp add: cos_tail_sum power_mult)
  also have "\<dots> = (\<Sum>j<Suc n. (- 1) ^ j * x ^ (2 * j) / fact (2 * j))"
    by (simp only: lessThan_Suc_atMost)
  also have "\<dots> = (\<Sum>m<2 * Suc n. cos_coeff m * x ^ m)"
    by (rule cos_coeff_even_terms [symmetric])
  finally show ?thesis
    using cos_taylor_bound [of x "2 * Suc n"] assms by simp
qed

lemma cos_tail_chk_sound:
  assumes "0 \<le> yl" and "yl \<le> y" and "y \<le> yh" and "cos_tail_chk yl yh k c cs"
  shows "fst c \<le> cos_tail y k (length cs) \<and> cos_tail y k (length cs) \<le> snd c"
  using assms(4)
proof (induction cs arbitrary: k c)
  case Nil
  then show ?case by simp
next
  case (Cons c' cs)
  define d where "d = real (2 * k + 1) * real (2 * k + 2)"
  define h where "h = cos_tail y (Suc k) (length cs)"
  have d: "0 < d" by (simp add: d_def)
  have nonneg: "0 \<le> fst c'"
    and lo: "fst c \<le> 1 - yh * snd c' / d" and hi: "1 - yl * fst c' / d \<le> snd c"
    and rest: "cos_tail_chk yl yh (Suc k) c' cs"
    using Cons.prems by (simp_all add: d_def)
  have l: "fst c' \<le> h" and u: "h \<le> snd c'"
    using Cons.IH [OF rest] by (simp_all add: h_def)
  have y: "0 \<le> y" using assms(1,2) by simp
  have "yl * fst c' \<le> y * h"
    using assms(1,2) nonneg l by (intro mult_mono) simp_all
  then have a: "yl * fst c' / d \<le> y * h / d"
    using d by (simp add: divide_right_mono)
  have "0 \<le> h" using nonneg l by simp
  then have "y * h \<le> yh * snd c'"
    using assms(3) y u by (intro mult_mono) simp_all
  then have b: "y * h / d \<le> yh * snd c' / d"
    using d by (simp add: divide_right_mono)
  have v: "cos_tail y k (length (c' # cs)) = 1 - y * h / d"
    by (simp add: d_def h_def)
  show ?case unfolding v using lo hi a b by linarith
qed

lemma cos_certified:
  fixes x :: real
  assumes "0 < x" and "x \<le> 2" and "0 \<le> yl" and "yl \<le> x ^ 2" and "x ^ 2 \<le> yh"
    and "cos_tail_chk yl yh 0 (l, u) cs"
    and "4 ^ Suc (length cs) / fact (2 * Suc (length cs)) \<le> r"
  shows "l - r \<le> cos x" and "cos x \<le> u + r"
proof -
  have "x ^ (2 * Suc (length cs)) \<le> 2 ^ (2 * Suc (length cs))"
    using assms(1,2) by (intro power_mono) simp_all
  also have "(2 :: real) ^ (2 * Suc (length cs)) = 4 ^ Suc (length cs)"
    by (simp add: power_mult)
  finally have "x ^ (2 * Suc (length cs)) / fact (2 * Suc (length cs))
      \<le> 4 ^ Suc (length cs) / fact (2 * Suc (length cs))"
    by (simp add: divide_right_mono)
  with cos_tail_enclosure [OF assms(1), of "length cs"] assms(7)
  have e: "\<bar>cos x - cos_tail (x ^ 2) 0 (length cs)\<bar> \<le> r" by linarith
  have "fst (l, u) \<le> cos_tail (x ^ 2) 0 (length cs)
      \<and> cos_tail (x ^ 2) 0 (length cs) \<le> snd (l, u)"
    using assms(3,4,5,6) by (rule cos_tail_chk_sound)
  then have s: "l \<le> cos_tail (x ^ 2) 0 (length cs)" "cos_tail (x ^ 2) 0 (length cs) \<le> u"
    by simp_all
  show "l - r \<le> cos x" using e s by linarith
  show "cos x \<le> u + r" using e s by linarith
qed

lemma cos_pos_up_to_one:
  fixes x :: real
  assumes "0 \<le> x" and "x \<le> 1"
  shows "0 < cos x"
proof (cases "x = 0")
  case True
  then show ?thesis by simp
next
  case False
  then have pos: "0 < x" using assms(1) by simp
  have "x ^ 2 \<le> 1 ^ 2" using assms by (intro power_mono) simp_all
  then have "x ^ 2 / 2 \<le> 1 / 2" by simp
  moreover have "\<bar>cos x - 1\<bar> \<le> x ^ 2 / 2"
    using cos_tail_enclosure [OF pos, of 0] by simp
  ultimately show ?thesis by linarith
qed


section \<open>Rounding to six decimals\<close>

lemma round_half_close:
  fixes a :: real
  assumes "0 \<le> a"
  shows "\<bar>real (nat \<lfloor>a + 1 / 2\<rfloor>) - a\<bar> \<le> 1 / 2"
proof -
  have "0 \<le> \<lfloor>a + 1 / 2\<rfloor>" using assms by simp
  then have "real (nat \<lfloor>a + 1 / 2\<rfloor>) = of_int \<lfloor>a + 1 / 2\<rfloor>" by simp
  then show ?thesis by linarith
qed

lemma parse_toFixed6:
  "\<exists>r. parseFloat (toFixed6 (Num x)) = Num r \<and> \<bar>r - x\<bar> \<le> 1 / (2 * 10 ^ 6)"
proof (cases "10 ^ 21 \<le> \<bar>x\<bar>")
  case True
  then show ?thesis by simp
next
  case False
  define n where "n = nat \<lfloor>\<bar>x\<bar> * 10 ^ 6 + 1 / 2\<rfloor>"
  have close: "\<bar>real n - \<bar>x\<bar> * 10 ^ 6\<bar> \<le> 1 / 2"
    unfolding n_def by (rule round_half_close) simp
  show ?thesis
  proof (cases "x < 0")
    case True
    have "parseFloat (toFixed6 (Num x)) = Num (- real n / 10 ^ 6)"
      using False True by (simp add: n_def)
    moreover have "\<bar>- real n / 10 ^ 6 - x\<bar> \<le> 1 / (2 * 10 ^ 6)"
      using close True by (simp add: field_simps abs_if split: if_splits)
    ultimately show ?thesis by blast
  next
    case nonneg: False
    have "parseFloat (toFixed6 (Num x)) = Num (real n / 10 ^ 6)"
      using False nonneg by (simp add: n_def)
    moreover have "\<bar>real n / 10 ^ 6 - x\<bar> \<le> 1 / (2 * 10 ^ 6)"
      using close nonneg by (simp add: field_simps abs_if split: if_splits)
    ultimately show ?thesis by blast
  qed
qed

lemma floor_quantize_bounds:
  fixes x step :: real
  assumes "0 < step"
  shows "of_int \<lfloor>x / step\<rfloor> * step \<le> x" and "x < of_int \<lfloor>x / step\<rfloor> * step + step"
proof -
  have "of_int \<lfloor>x / step\<rfloor> \<le> x / step" by (rule of_int_floor_le)
  then show "of_int \<lfloor>x / step\<rfloor> * step \<le> x"
    by (simp only: pos_le_divide_eq [OF assms])
  have "x / step < of_int \<lfloor>x / step\<rfloor> + 1" by linarith
  then have "x < (of_int \<lfloor>x / step\<rfloor> + 1) * step"
    by (simp only: pos_divide_less_eq [OF assms])
  then show "x < of_int \<lfloor>x / step\<rfloor> * step + step"
    by (simp add: algebra_simps)
qed

lemma getCellBounds_unfold:
  "getCellBounds (Key latStr lngStr) =
     \<lparr>south = parseFloat latStr, north = jadd (parseFloat latStr) CELL_SIZE_LAT,
      west = parseFloat lngStr, east = jadd (parseFloat lngStr) (cellSizeLng (parseFloat latStr))\<rparr>"
  by (simp add: Let_def)

section \<open>Evaluating a key\<close>

text \<open>
  The key of a position is settled by the two floors and the two roundings once the
  cosine is enclosed: \<open>r\<close> and \<open>k\<close> are the row and the column, \<open>n\<close> and \<open>m\<close> the digits.
\<close>

lemma toFixed6_Digits:
  assumes "real n - 1 / 2 \<le> \<bar>x\<bar> * 10 ^ 6" and "\<bar>x\<bar> * 10 ^ 6 < real n + 1 / 2"
    and "real n < 10 ^ 26"
  shows "toFixed6 (Num x) = Digits (x < 0) n"
proof -
  have "\<bar>x\<bar> * 1000000 < 1000000000000000000000000000" using assms(2,3) by simp
  then have small: "\<not> 10 ^ 21 \<le> \<bar>x\<bar>" by simp
  have "\<lfloor>\<bar>x\<bar> * 10 ^ 6 + 1 / 2\<rfloor> = int n"
    by (rule floor_unique) (use assms(1,2) in simp_all)
  then show ?thesis using small by simp
qed

lemma between_mult:
  fixes a c cl cu :: real
  assumes "cl \<le> c" and "c \<le> cu"
  shows "min (a * cl) (a * cu) \<le> a * c" and "a * c \<le> max (a * cl) (a * cu)"
proof -
  show "min (a * cl) (a * cu) \<le> a * c"
  proof (cases "0 \<le> a")
    case True
    then have "a * cl \<le> a * c" using assms(1) by (intro mult_left_mono)
    then show ?thesis by simp
  next
    case False
    then have "a * cu \<le> a * c" using assms(2) by (intro mult_left_mono_neg) simp_all
    then show ?thesis by simp
  qed
  show "a * c \<le> max (a * cl) (a * cu)"
  proof (cases "0 \<le> a")
    case True
    then have "a * c \<le> a * cu" using assms(2) by (intro mult_left_mono)
    then show ?thesis by simp
  next
    case False
    then have "a * c \<le> a * cl" using assms(1) by (intro mult_left_mono_neg) simp_all
    then show ?thesis by simp
  qed
qed

lemma getCellKey_digits:
  fixes lat lng c :: real and r k :: int and n m :: nat
  assumes c: "cos (lat * PI_double / 180) = c" and nz: "c \<noteq> 0"
    and row: "of_int r \<le> lat * 111320 / 50" "lat * 111320 / 50 < of_int r + 1"
    and col: "of_int k \<le> lng * 111320 / 50 * c" "lng * 111320 / 50 * c < of_int k + 1"
    and latd: "real n - 1 / 2 \<le> \<bar>of_int r\<bar> * (50 / 111320) * 10 ^ 6"
      "\<bar>of_int r\<bar> * (50 / 111320) * 10 ^ 6 < real n + 1 / 2" "real n < 10 ^ 26"
    and lngd: "(real m - 1 / 2) * \<bar>c\<bar> \<le> \<bar>of_int k\<bar> * (50 / 111320) * 10 ^ 6"
      "\<bar>of_int k\<bar> * (50 / 111320) * 10 ^ 6 < (real m + 1 / 2) * \<bar>c\<bar>" "real m < 10 ^ 26"
  shows "getCellKey (Num lat) (Num lng) = Key (Digits (r < 0) n) (Digits (of_int k * c < 0) m)"
proof -
  define y where "y = of_int r * (50 / 111320 :: real)"
  define x where "x = of_int k * (50 / (111320 * c))"
  have nz': "cos (lat * PI_double / 180) \<noteq> 0" using c nz by simp
  have "lat / (50 / 111320) = lat * 111320 / 50" by simp
  then have fr: "\<lfloor>lat / (50 / 111320)\<rfloor> = r"
    using row by (simp only: floor_eq_iff)
  have "lng / (50 / (111320 * c)) = lng * 111320 / 50 * c" by simp
  then have fk: "\<lfloor>lng / (50 / (111320 * c))\<rfloor> = k"
    using col by (simp only: floor_eq_iff)
  have key: "getCellKey (Num lat) (Num lng) = Key (toFixed6 (Num y)) (toFixed6 (Num x))"
    unfolding getCellKey_Num [OF nz'] c fr fk x_def y_def by (rule refl)
  have ay: "\<bar>y\<bar> * 10 ^ 6 = \<bar>of_int r\<bar> * (50 / 111320) * 10 ^ 6"
    by (simp add: y_def abs_mult)
  have sy: "(y < 0) = (r < 0)"
    by (simp add: y_def mult_less_0_iff)
  have ty: "toFixed6 (Num y) = Digits (r < 0) n"
    using toFixed6_Digits [of n y] latd unfolding ay sy by simp
  have ac: "0 < \<bar>c\<bar>" using nz by simp
  have ax: "\<bar>x\<bar> * 10 ^ 6 = \<bar>of_int k\<bar> * (50 / 111320) * 10 ^ 6 / \<bar>c\<bar>"
    by (simp add: x_def abs_mult)
  have x1: "real m - 1 / 2 \<le> \<bar>x\<bar> * 10 ^ 6"
    unfolding ax using lngd(1) ac by (simp only: pos_le_divide_eq)
  have x2: "\<bar>x\<bar> * 10 ^ 6 < real m + 1 / 2"
    unfolding ax using lngd(2) ac by (simp only: pos_divide_less_eq)
  have "x = of_int k * c * (50 / (111320 * c ^ 2))"
    using nz by (simp add: x_def power2_eq_square)
  moreover have "0 < 50 / (111320 * c ^ 2)" using nz by simp
  ultimately have sx: "(x < 0) = (of_int k * c < 0)"
    by (simp only: mult_less_0_iff) (simp add: not_less_iff_gr_or_eq)
  have tx: "toFixed6 (Num x) = Digits (of_int k * c < 0) m"
    using toFixed6_Digits [OF x1 x2 lngd(3)] unfolding sx .
  show ?thesis unfolding key ty tx by (rule refl)
qed

lemma getCellKey_digits_pos:
  fixes lat lng cl cu :: real and r k :: int and n m :: nat
  assumes lo: "cl \<le> cos (lat * PI_double / 180)" and hi: "cos (lat * PI_double / 180) \<le> cu"
    and pos: "0 < cl"
    and row: "of_int r \<le> lat * 111320 / 50" "lat * 111320 / 50 < of_int r + 1"
    and col: "of_int k \<le> min (lng * 111320 / 50 * cl) (lng * 111320 / 50 * cu)"
      "max (lng * 111320 / 50 * cl) (lng * 111320 / 50 * cu) < of_int k + 1"
    and latd: "real n - 1 / 2 \<le> \<bar>of_int r\<bar> * (50 / 111320) * 10 ^ 6"
      "\<bar>of_int r\<bar> * (50 / 111320) * 10 ^ 6 < real n + 1 / 2" "real n < 10 ^ 26"
    and lngd: "max ((real m - 1 / 2) * cl) ((real m - 1 / 2) * cu)
        \<le> \<bar>of_int k\<bar> * (50 / 111320) * 10 ^ 6"
      "\<bar>of_int k\<bar> * (50 / 111320) * 10 ^ 6 < (real m + 1 / 2) * cl" "real m < 10 ^ 26"
  shows "getCellKey (Num lat) (Num lng) = Key (Digits (r < 0) n) (Digits (k < 0) m)"
proof -
  define c where "c = cos (lat * PI_double / 180)"
  have cl: "cl \<le> c" and cu: "c \<le> cu" using lo hi by (simp_all add: c_def)
  have cpos: "0 < c" using pos cl by simp
  have c1: "of_int k \<le> lng * 111320 / 50 * c"
    using col(1) between_mult(1) [OF cl cu, of "lng * 111320 / 50"] by linarith
  have c2: "lng * 111320 / 50 * c < of_int k + 1"
    using col(2) between_mult(2) [OF cl cu, of "lng * 111320 / 50"] by linarith
  have ac: "\<bar>c\<bar> = c" using cpos by simp
  have "(real m - 1 / 2) * c \<le> max ((real m - 1 / 2) * cl) ((real m - 1 / 2) * cu)"
    by (rule between_mult(2) [OF cl cu])
  then have d1: "(real m - 1 / 2) * \<bar>c\<bar> \<le> \<bar>of_int k\<bar> * (50 / 111320) * 10 ^ 6"
    unfolding ac using lngd(1) by (rule order_trans)
  have "(real m + 1 / 2) * cl \<le> (real m + 1 / 2) * c"
    using cl by (intro mult_left_mono) simp_all
  with lngd(2) have d2: "\<bar>of_int k\<bar> * (50 / 111320) * 10 ^ 6 < (real m + 1 / 2) * \<bar>c\<bar>"
    unfolding ac by (rule less_le_trans)
  have s: "(of_int k * c < 0) = (k < 0)"
    using cpos by (simp add: mult_less_0_iff not_less [symmetric])
  have "getCellKey (Num lat) (Num lng) = Key (Digits (r < 0) n) (Digits (of_int k * c < 0) m)"
    using c_def [symmetric] _ row c1 c2 latd d1 d2 lngd(3)
    by (rule getCellKey_digits) (use cpos in simp)
  then show ?thesis unfolding s .
qed

section \<open>Round trip of the cell codec\<close>





subsection \<open>The east edge\<close>

text \<open>
  \<open>getCellKey\<close> takes the longitude step at the latitude of the position, \<open>getCellBounds\<close>
  at the south edge of the row, which it reads from the key. North of the equator the
  second step is the shorter one, so the rectangle ends west of where the column does.
  At latitude \<open>89.9\<close>, longitude \<open>-0.0001\<close> the key is \<open>"89.899838_-0.257347"\<close> and the east
  edge of its rectangle, \<open>-0.000416\<close>, lies west of the position.
\<close>

lemma cos_near_pole:
  "174532836 / 100000000000 \<le> cos (899 / 10 * PI_double / 180)"
  "cos (899 / 10 * PI_double / 180) \<le> 174532837 / 100000000000"
proof -
  define cs :: "(real \<times> real) list" where
    "cs = [(81095588225437 / 100000000000000,
        81095588225438 / 100000000000000),
       (92144686309625 / 100000000000000,
        92144686309626 / 100000000000000),
       (95721758562887 / 100000000000000,
        95721758562888 / 100000000000000),
       (97314868055312 / 100000000000000,
        97314868055313 / 100000000000000),
       (98159880757073 / 100000000000000,
        98159880757074 / 100000000000000),
       (98661060538228 / 100000000000000,
        98661060538229 / 100000000000000),
       (98982452640397 / 100000000000000,
        98982452640398 / 100000000000000),
       (99195450642846 / 100000000000000,
        99195450642847 / 100000000000000),
       (1, 1)]"
  have x: "0 < (899 / 10 * PI_double / 180)" "(899 / 10 * PI_double / 180) \<le> 2"
    by (simp_all add: PI_double_def)
  have y: "(0 :: real) \<le> 246192103289037 / 100000000000000"
    "246192103289037 / 100000000000000 \<le> (899 / 10 * PI_double / 180) ^ 2"
    "(899 / 10 * PI_double / 180) ^ 2 \<le> 246192103289038 / 100000000000000"
    by (simp_all add: PI_double_def power_divide)
  have c: "cos_tail_chk (246192103289037 / 100000000000000)
      (246192103289038 / 100000000000000) 0
      (174532836588 / 100000000000000,
       174532836591 / 100000000000000) cs"
    unfolding cs_def cos_tail_chk.simps fst_conv snd_conv by (intro conjI) simp_all
  have r: "4 ^ Suc (length cs) / fact (2 * Suc (length cs)) \<le> (1 / 1000000000000 :: real)"
    by (simp add: cs_def fact_numeral)
  have "(174532836 / 100000000000 :: real)
      \<le> 174532836588 / 100000000000000 - 1 / 1000000000000"
    by simp
  also have "\<dots> \<le> cos (899 / 10 * PI_double / 180)" by (rule cos_certified(1) [OF x y c r])
  finally show "174532836 / 100000000000 \<le> cos (899 / 10 * PI_double / 180)" .
  have "cos (899 / 10 * PI_double / 180)
      \<le> 174532836591 / 100000000000000 + 1 / 1000000000000"
    by (rule cos_certified(2) [OF x y c r])
  also have "\<dots> \<le> (174532837 / 100000000000 :: real)" by simp
  finally show "cos (899 / 10 * PI_double / 180) \<le> 174532837 / 100000000000" .
qed

lemma cos_near_pole_south:
  "174815579 / 100000000000 \<le> cos (89899838 / 10 ^ 6 * PI_double / 180)"
  "cos (89899838 / 10 ^ 6 * PI_double / 180) \<le> 174815580 / 100000000000"
proof -
  define cs :: "(real \<times> real) list" where
    "cs = [(81095650801346 / 100000000000000,
        81095650801347 / 100000000000000),
       (92144713389129 / 100000000000000,
        92144713389130 / 100000000000000),
       (95721773564105 / 100000000000000,
        95721773564106 / 100000000000000),
       (97314877553558 / 100000000000000,
        97314877553559 / 100000000000000),
       (98159887299782 / 100000000000000,
        98159887299783 / 100000000000000),
       (98661065314563 / 100000000000000,
        98661065314564 / 100000000000000),
       (98982456277895 / 100000000000000,
        98982456277896 / 100000000000000),
       (99195453542443 / 100000000000000,
        99195453542444 / 100000000000000),
       (1, 1)]"
  have x: "0 < (89899838 / 10 ^ 6 * PI_double / 180)" "(89899838 / 10 ^ 6 * PI_double / 180) \<le> 2"
    by (simp_all add: PI_double_def)
  have y: "(0 :: real) \<le> 246191216012401 / 100000000000000"
    "246191216012401 / 100000000000000 \<le> (89899838 / 10 ^ 6 * PI_double / 180) ^ 2"
    "(89899838 / 10 ^ 6 * PI_double / 180) ^ 2 \<le> 246191216012402 / 100000000000000"
    by (simp_all add: PI_double_def power_divide)
  have c: "cos_tail_chk (246191216012401 / 100000000000000)
      (246191216012402 / 100000000000000) 0
      (174815579496 / 100000000000000,
       174815579498 / 100000000000000) cs"
    unfolding cs_def cos_tail_chk.simps fst_conv snd_conv by (intro conjI) simp_all
  have r: "4 ^ Suc (length cs) / fact (2 * Suc (length cs)) \<le> (1 / 1000000000000 :: real)"
    by (simp add: cs_def fact_numeral)
  have "(174815579 / 100000000000 :: real)
      \<le> 174815579496 / 100000000000000 - 1 / 1000000000000"
    by simp
  also have "\<dots> \<le> cos (89899838 / 10 ^ 6 * PI_double / 180)" by (rule cos_certified(1) [OF x y c r])
  finally show "174815579 / 100000000000 \<le> cos (89899838 / 10 ^ 6 * PI_double / 180)" .
  have "cos (89899838 / 10 ^ 6 * PI_double / 180)
      \<le> 174815579498 / 100000000000000 + 1 / 1000000000000"
    by (rule cos_certified(2) [OF x y c r])
  also have "\<dots> \<le> (174815580 / 100000000000 :: real)" by simp
  finally show "cos (89899838 / 10 ^ 6 * PI_double / 180) \<le> 174815580 / 100000000000" .
qed

lemma key_near_pole:
  "getCellKey (Num (899 / 10)) (Num (- (1 / 10 ^ 4)))
     = Key (Digits False 89899838) (Digits True 257347)"
proof -
  have "getCellKey (Num (899 / 10)) (Num (- (1 / 10 ^ 4)))
      = Key (Digits ((200153 :: int) < 0) 89899838) (Digits ((- 1 :: int) < 0) 257347)"
    by (rule getCellKey_digits_pos [OF cos_near_pole]) simp_all
  then show ?thesis by simp
qed

lemma getCellBounds_east_west_of_point:
  "0 < cos (899 / 10 * PI_double / 180) \<and>
   getCellKey (Num (899 / 10)) (Num (- (1 / 10 ^ 4)))
     = Key (Digits False 89899838) (Digits True 257347) \<and>
   east (getCellBounds (getCellKey (Num (899 / 10)) (Num (- (1 / 10 ^ 4)))))
     = Num (- (257347 / 10 ^ 6) + 50 / (111320 * cos (89899838 / 10 ^ 6 * PI_double / 180))) \<and>
   jlt (east (getCellBounds (getCellKey (Num (899 / 10)) (Num (- (1 / 10 ^ 4))))))
       (Num (- (1 / 10 ^ 4)))"
proof -
  define c where "c = cos (89899838 / 10 ^ 6 * PI_double / 180)"
  have c: "174815579 / 100000000000 \<le> c"
    unfolding c_def by (rule cos_near_pole_south(1))
  then have cpos: "0 < c" by simp
  then have nz: "cos (89899838 / 10 ^ 6 * PI_double / 180) \<noteq> 0" by (simp add: c_def)
  have "50 < 111320 * (174815579 / 100000000000 :: real) * (257 / 1000)" by simp
  also have "\<dots> \<le> 111320 * c * (257 / 1000)" using c by simp
  finally have "50 / (111320 * c) < 257 / 1000"
    using cpos by (simp add: pos_divide_less_eq)
  then have lt: "- (257347 / 10 ^ 6) + 50 / (111320 * c) < - (1 / 10 ^ 4)" by simp
  have e: "east (getCellBounds (getCellKey (Num (899 / 10)) (Num (- (1 / 10 ^ 4)))))
      = Num (- (257347 / 10 ^ 6) + 50 / (111320 * c))"
    unfolding key_near_pole getCellBounds_unfold c_def
    using cellSizeLng_Num [OF nz] by simp
  have p: "0 < cos (899 / 10 * PI_double / 180)"
    using cos_near_pole(1) by simp
  show ?thesis
    using p key_near_pole e lt unfolding c_def by simp
qed

section \<open>The reveal brush\<close>

lemma upto_radius: "[- REVEAL_RADIUS..REVEAL_RADIUS] = [-2, -1, 0, 1, 2]"
  unfolding REVEAL_RADIUS_def by (simp add: upto_rec1)

lemma square_le_5:
  fixes dx dy :: int
  assumes "dx * dx + dy * dy \<le> 5"
  shows "- 2 \<le> dx \<and> dx \<le> 2"
proof -
  have "0 \<le> dy * dy" by simp
  with assms have le: "dx * dx \<le> 5" by linarith
  have "dx \<le> 2"
  proof (rule ccontr)
    assume "\<not> dx \<le> 2"
    then have "3 \<le> dx" by simp
    then have "3 * 3 \<le> dx * dx" by (intro mult_mono) simp_all
    with le show False by simp
  qed
  moreover have "- 2 \<le> dx"
  proof (rule ccontr)
    assume "\<not> - 2 \<le> dx"
    then have "3 \<le> - dx" by simp
    then have "3 * 3 \<le> (- dx) * (- dx)" by (intro mult_mono) simp_all
    with le show False by simp
  qed
  ultimately show ?thesis by simp
qed

lemma in_nested_loop:
  "k \<in> set (concat (map (\<lambda>dy. concat (map (\<lambda>dx. if P dx dy then [f dx dy] else []) xs)) ys))
     \<longleftrightarrow> (\<exists>dy \<in> set ys. \<exists>dx \<in> set xs. P dx dy \<and> k = f dx dy)"
  by auto

lemma getRevealCells_keys:
  "getRevealCells lat lng =
     concat (map (\<lambda>dy. concat (map (\<lambda>dx.
         if dx * dx + dy * dy \<le> REVEAL_RADIUS * REVEAL_RADIUS + 1
         then [pushed_key lat lng dx dy] else [])
       [- REVEAL_RADIUS..REVEAL_RADIUS])) [- REVEAL_RADIUS..REVEAL_RADIUS])"
  unfolding getRevealCells_def Let_def pushed_key_def by (rule refl)

lemma length_getRevealCells: "length (getRevealCells lat lng) = 21"
  unfolding getRevealCells_keys upto_radius by (simp add: REVEAL_RADIUS_def)

lemma set_getRevealCells:
  "set (getRevealCells lat lng) =
     {pushed_key lat lng dx dy | dx dy.
        dx * dx + dy * dy \<le> REVEAL_RADIUS * REVEAL_RADIUS + 1}"
proof (intro set_eqI iffI)
  fix k
  assume "k \<in> set (getRevealCells lat lng)"
  then show "k \<in> {pushed_key lat lng dx dy | dx dy.
        dx * dx + dy * dy \<le> REVEAL_RADIUS * REVEAL_RADIUS + 1}"
    unfolding getRevealCells_keys in_nested_loop by blast
next
  fix k
  assume "k \<in> {pushed_key lat lng dx dy | dx dy.
        dx * dx + dy * dy \<le> REVEAL_RADIUS * REVEAL_RADIUS + 1}"
  then obtain dx dy where k: "k = pushed_key lat lng dx dy"
    and le: "dx * dx + dy * dy \<le> REVEAL_RADIUS * REVEAL_RADIUS + 1"
    by blast
  have le5: "dx * dx + dy * dy \<le> 5" using le by (simp add: REVEAL_RADIUS_def)
  have bx: "- 2 \<le> dx \<and> dx \<le> 2" using le5 by (rule square_le_5)
  have "dy * dy + dx * dx \<le> 5" using le5 by simp
  then have by': "- 2 \<le> dy \<and> dy \<le> 2" by (rule square_le_5)
  have mx: "dx \<in> set [- REVEAL_RADIUS..REVEAL_RADIUS]"
    unfolding set_upto REVEAL_RADIUS_def using bx by simp
  have my: "dy \<in> set [- REVEAL_RADIUS..REVEAL_RADIUS]"
    unfolding set_upto REVEAL_RADIUS_def using by' by simp
  show "k \<in> set (getRevealCells lat lng)"
    unfolding getRevealCells_keys in_nested_loop using mx my le k by blast
qed

lemma offsets_card:
  "card {(dx :: int, dy :: int). dx * dx + dy * dy \<le> 5} = 21"
proof -
  let ?r = "[-2, -1, 0, 1, 2] :: int list"
  let ?xs = "filter (\<lambda>(dx, dy). dx * dx + dy * dy \<le> 5) (List.product ?r ?r)"
  have "{(dx :: int, dy :: int). dx * dx + dy * dy \<le> 5} = set ?xs"
  proof (intro set_eqI iffI)
    fix p :: "int \<times> int"
    assume "p \<in> {(dx, dy). dx * dx + dy * dy \<le> 5}"
    then obtain dx dy where p: "p = (dx, dy)" and le: "dx * dx + dy * dy \<le> 5" by auto
    have bx: "- 2 \<le> dx \<and> dx \<le> 2" using le by (rule square_le_5)
    have "dy * dy + dx * dx \<le> 5" using le by simp
    then have by': "- 2 \<le> dy \<and> dy \<le> 2" by (rule square_le_5)
    have "dx \<in> set ?r" using bx by auto
    moreover have "dy \<in> set ?r" using by' by auto
    ultimately have m: "(dx, dy) \<in> set (List.product ?r ?r)"
      by (simp only: set_product mem_Sigma_iff)
    show "p \<in> set ?xs"
      unfolding p set_filter mem_Collect_eq prod.case using m le by (rule conjI)
  next
    fix p :: "int \<times> int"
    assume "p \<in> set ?xs"
    then show "p \<in> {(dx, dy). dx * dx + dy * dy \<le> 5}" by (simp only: set_filter) blast
  qed
  moreover have "distinct ?xs" by (intro distinct_filter distinct_product) simp_all
  moreover have "length ?xs = 21" by simp
  ultimately show ?thesis by (simp only: distinct_card)
qed

subsection \<open>The brush at the position (0, 0)\<close>

text \<open>
  The cosine at the latitudes of the rows one and two steps from the equator, and at the
  latitude one step and a half south of it: just below 1.
\<close>

lemma cos_row_0:
  "1 \<le> cos (0 * (50 / 111320) * PI_double / 180)"
  "cos (0 * (50 / 111320) * PI_double / 180) \<le> 1"
  by simp_all

lemma cos_row_1:
  "99999999996 / 100000000000 \<le> cos (1 * (50 / 111320) * PI_double / 180)"
  "cos (1 * (50 / 111320) * PI_double / 180) \<le> 99999999998 / 100000000000"
proof -
  define cs :: "(real \<times> real) list" where
    "cs = [(99999999999487 / 100000000000000,
        99999999999488 / 100000000000000),
       (99999999999795 / 100000000000000,
        99999999999796 / 100000000000000),
       (99999999999890 / 100000000000000,
        99999999999891 / 100000000000000),
       (99999999999931 / 100000000000000,
        99999999999932 / 100000000000000),
       (99999999999953 / 100000000000000,
        99999999999954 / 100000000000000),
       (99999999999966 / 100000000000000,
        99999999999967 / 100000000000000),
       (99999999999974 / 100000000000000,
        99999999999975 / 100000000000000),
       (99999999999979 / 100000000000000,
        99999999999980 / 100000000000000),
       (1, 1)]"
  have x: "0 < (1 * (50 / 111320) * PI_double / 180)" "(1 * (50 / 111320) * PI_double / 180) \<le> 2"
    by (simp_all add: PI_double_def)
  have y: "(0 :: real) \<le> 6145 / 100000000000000"
    "6145 / 100000000000000 \<le> (1 * (50 / 111320) * PI_double / 180) ^ 2"
    "(1 * (50 / 111320) * PI_double / 180) ^ 2 \<le> 6146 / 100000000000000"
    by (simp_all add: PI_double_def power_divide)
  have c: "cos_tail_chk (6145 / 100000000000000)
      (6146 / 100000000000000) 0
      (99999999996927 / 100000000000000,
       99999999996928 / 100000000000000) cs"
    unfolding cs_def cos_tail_chk.simps fst_conv snd_conv by (intro conjI) simp_all
  have r: "4 ^ Suc (length cs) / fact (2 * Suc (length cs)) \<le> (1 / 1000000000000 :: real)"
    by (simp add: cs_def fact_numeral)
  have "(99999999996 / 100000000000 :: real)
      \<le> 99999999996927 / 100000000000000 - 1 / 1000000000000"
    by simp
  also have "\<dots> \<le> cos (1 * (50 / 111320) * PI_double / 180)" by (rule cos_certified(1) [OF x y c r])
  finally show "99999999996 / 100000000000 \<le> cos (1 * (50 / 111320) * PI_double / 180)" .
  have "cos (1 * (50 / 111320) * PI_double / 180)
      \<le> 99999999996928 / 100000000000000 + 1 / 1000000000000"
    by (rule cos_certified(2) [OF x y c r])
  also have "\<dots> \<le> (99999999998 / 100000000000 :: real)" by simp
  finally show "cos (1 * (50 / 111320) * PI_double / 180) \<le> 99999999998 / 100000000000" .
qed

lemma cos_row_m1:
  "99999999996 / 100000000000 \<le> cos (- 1 * (50 / 111320) * PI_double / 180)"
  "cos (- 1 * (50 / 111320) * PI_double / 180) \<le> 99999999998 / 100000000000"
proof -
  have e: "cos (- 1 * (50 / 111320) * PI_double / 180) = cos (1 * (50 / 111320) * PI_double / 180)"
    using cos_minus [of "1 * (50 / 111320) * PI_double / 180"] by simp
  show "99999999996 / 100000000000 \<le> cos (- 1 * (50 / 111320) * PI_double / 180)" unfolding e by (rule cos_row_1(1))
  show "cos (- 1 * (50 / 111320) * PI_double / 180) \<le> 99999999998 / 100000000000" unfolding e by (rule cos_row_1(2))
qed

lemma cos_row_2:
  "99999999987 / 100000000000 \<le> cos (2 * (50 / 111320) * PI_double / 180)"
  "cos (2 * (50 / 111320) * PI_double / 180) \<le> 99999999988 / 100000000000"
proof -
  define cs :: "(real \<times> real) list" where
    "cs = [(99999999997951 / 100000000000000,
        99999999997952 / 100000000000000),
       (99999999999180 / 100000000000000,
        99999999999181 / 100000000000000),
       (99999999999561 / 100000000000000,
        99999999999562 / 100000000000000),
       (99999999999726 / 100000000000000,
        99999999999727 / 100000000000000),
       (99999999999813 / 100000000000000,
        99999999999814 / 100000000000000),
       (99999999999864 / 100000000000000,
        99999999999865 / 100000000000000),
       (99999999999897 / 100000000000000,
        99999999999898 / 100000000000000),
       (99999999999919 / 100000000000000,
        99999999999920 / 100000000000000),
       (1, 1)]"
  have x: "0 < (2 * (50 / 111320) * PI_double / 180)" "(2 * (50 / 111320) * PI_double / 180) \<le> 2"
    by (simp_all add: PI_double_def)
  have y: "(0 :: real) \<le> 24581 / 100000000000000"
    "24581 / 100000000000000 \<le> (2 * (50 / 111320) * PI_double / 180) ^ 2"
    "(2 * (50 / 111320) * PI_double / 180) ^ 2 \<le> 24582 / 100000000000000"
    by (simp_all add: PI_double_def power_divide)
  have c: "cos_tail_chk (24581 / 100000000000000)
      (24582 / 100000000000000) 0
      (99999999987709 / 100000000000000,
       99999999987710 / 100000000000000) cs"
    unfolding cs_def cos_tail_chk.simps fst_conv snd_conv by (intro conjI) simp_all
  have r: "4 ^ Suc (length cs) / fact (2 * Suc (length cs)) \<le> (1 / 1000000000000 :: real)"
    by (simp add: cs_def fact_numeral)
  have "(99999999987 / 100000000000 :: real)
      \<le> 99999999987709 / 100000000000000 - 1 / 1000000000000"
    by simp
  also have "\<dots> \<le> cos (2 * (50 / 111320) * PI_double / 180)" by (rule cos_certified(1) [OF x y c r])
  finally show "99999999987 / 100000000000 \<le> cos (2 * (50 / 111320) * PI_double / 180)" .
  have "cos (2 * (50 / 111320) * PI_double / 180)
      \<le> 99999999987710 / 100000000000000 + 1 / 1000000000000"
    by (rule cos_certified(2) [OF x y c r])
  also have "\<dots> \<le> (99999999988 / 100000000000 :: real)" by simp
  finally show "cos (2 * (50 / 111320) * PI_double / 180) \<le> 99999999988 / 100000000000" .
qed

lemma cos_row_m2:
  "99999999987 / 100000000000 \<le> cos (- 2 * (50 / 111320) * PI_double / 180)"
  "cos (- 2 * (50 / 111320) * PI_double / 180) \<le> 99999999988 / 100000000000"
proof -
  have e: "cos (- 2 * (50 / 111320) * PI_double / 180) = cos (2 * (50 / 111320) * PI_double / 180)"
    using cos_minus [of "2 * (50 / 111320) * PI_double / 180"] by simp
  show "99999999987 / 100000000000 \<le> cos (- 2 * (50 / 111320) * PI_double / 180)" unfolding e by (rule cos_row_2(1))
  show "cos (- 2 * (50 / 111320) * PI_double / 180) \<le> 99999999988 / 100000000000" unfolding e by (rule cos_row_2(2))
qed

lemma cos_row_half:
  "99999999992 / 100000000000 \<le> cos (3 / 2 * (50 / 111320) * PI_double / 180)"
  "cos (3 / 2 * (50 / 111320) * PI_double / 180) \<le> 99999999994 / 100000000000"
proof -
  define cs :: "(real \<times> real) list" where
    "cs = [(99999999998847 / 100000000000000,
        99999999998848 / 100000000000000),
       (99999999999539 / 100000000000000,
        99999999999540 / 100000000000000),
       (99999999999753 / 100000000000000,
        99999999999754 / 100000000000000),
       (99999999999846 / 100000000000000,
        99999999999847 / 100000000000000),
       (99999999999895 / 100000000000000,
        99999999999896 / 100000000000000),
       (99999999999924 / 100000000000000,
        99999999999925 / 100000000000000),
       (99999999999942 / 100000000000000,
        99999999999943 / 100000000000000),
       (99999999999954 / 100000000000000,
        99999999999955 / 100000000000000),
       (1, 1)]"
  have x: "0 < (3 / 2 * (50 / 111320) * PI_double / 180)" "(3 / 2 * (50 / 111320) * PI_double / 180) \<le> 2"
    by (simp_all add: PI_double_def)
  have y: "(0 :: real) \<le> 13827 / 100000000000000"
    "13827 / 100000000000000 \<le> (3 / 2 * (50 / 111320) * PI_double / 180) ^ 2"
    "(3 / 2 * (50 / 111320) * PI_double / 180) ^ 2 \<le> 13828 / 100000000000000"
    by (simp_all add: PI_double_def power_divide)
  have c: "cos_tail_chk (13827 / 100000000000000)
      (13828 / 100000000000000) 0
      (99999999993086 / 100000000000000,
       99999999993087 / 100000000000000) cs"
    unfolding cs_def cos_tail_chk.simps fst_conv snd_conv by (intro conjI) simp_all
  have r: "4 ^ Suc (length cs) / fact (2 * Suc (length cs)) \<le> (1 / 1000000000000 :: real)"
    by (simp add: cs_def fact_numeral)
  have "(99999999992 / 100000000000 :: real)
      \<le> 99999999993086 / 100000000000000 - 1 / 1000000000000"
    by simp
  also have "\<dots> \<le> cos (3 / 2 * (50 / 111320) * PI_double / 180)" by (rule cos_certified(1) [OF x y c r])
  finally show "99999999992 / 100000000000 \<le> cos (3 / 2 * (50 / 111320) * PI_double / 180)" .
  have "cos (3 / 2 * (50 / 111320) * PI_double / 180)
      \<le> 99999999993087 / 100000000000000 + 1 / 1000000000000"
    by (rule cos_certified(2) [OF x y c r])
  also have "\<dots> \<le> (99999999994 / 100000000000 :: real)" by simp
  finally show "cos (3 / 2 * (50 / 111320) * PI_double / 180) \<le> 99999999994 / 100000000000" .
qed

lemma cos_row_mhalf:
  "99999999992 / 100000000000 \<le> cos (- (3 / 2) * (50 / 111320) * PI_double / 180)"
  "cos (- (3 / 2) * (50 / 111320) * PI_double / 180) \<le> 99999999994 / 100000000000"
proof -
  have e: "cos (- (3 / 2) * (50 / 111320) * PI_double / 180) = cos (3 / 2 * (50 / 111320) * PI_double / 180)"
    using cos_minus [of "3 / 2 * (50 / 111320) * PI_double / 180"] by simp
  show "99999999992 / 100000000000 \<le> cos (- (3 / 2) * (50 / 111320) * PI_double / 180)" unfolding e by (rule cos_row_half(1))
  show "cos (- (3 / 2) * (50 / 111320) * PI_double / 180) \<le> 99999999994 / 100000000000" unfolding e by (rule cos_row_half(2))
qed

lemma reveal_keys_at_origin:
  "getRevealCells (Num 0) (Num 0) =
     [Key (Digits True 898) (Digits True 449),
      Key (Digits True 898) (Digits False 0),
      Key (Digits True 898) (Digits False 0),
      Key (Digits True 449) (Digits True 898),
      Key (Digits True 449) (Digits True 449),
      Key (Digits True 449) (Digits False 0),
      Key (Digits True 449) (Digits False 0),
      Key (Digits True 449) (Digits False 449),
      Key (Digits False 0) (Digits True 898),
      Key (Digits False 0) (Digits True 449),
      Key (Digits False 0) (Digits False 0),
      Key (Digits False 0) (Digits False 449),
      Key (Digits False 0) (Digits False 898),
      Key (Digits False 449) (Digits True 898),
      Key (Digits False 449) (Digits True 449),
      Key (Digits False 449) (Digits False 0),
      Key (Digits False 449) (Digits False 0),
      Key (Digits False 449) (Digits False 449),
      Key (Digits False 898) (Digits True 449),
      Key (Digits False 898) (Digits False 0),
      Key (Digits False 898) (Digits False 0)]"
proof -
  have cs: "cellSizeLng (Num 0) = Num (50 / 111320)"
    by (simp add: cellSizeLng_Num)
  have pushed: "getRevealCells (Num 0) (Num 0) =
     [getCellKey (Num (- 2 * (50 / 111320))) (Num (- 1 * (50 / 111320))),
      getCellKey (Num (- 2 * (50 / 111320))) (Num (0 * (50 / 111320))),
      getCellKey (Num (- 2 * (50 / 111320))) (Num (1 * (50 / 111320))),
      getCellKey (Num (- 1 * (50 / 111320))) (Num (- 2 * (50 / 111320))),
      getCellKey (Num (- 1 * (50 / 111320))) (Num (- 1 * (50 / 111320))),
      getCellKey (Num (- 1 * (50 / 111320))) (Num (0 * (50 / 111320))),
      getCellKey (Num (- 1 * (50 / 111320))) (Num (1 * (50 / 111320))),
      getCellKey (Num (- 1 * (50 / 111320))) (Num (2 * (50 / 111320))),
      getCellKey (Num (0 * (50 / 111320))) (Num (- 2 * (50 / 111320))),
      getCellKey (Num (0 * (50 / 111320))) (Num (- 1 * (50 / 111320))),
      getCellKey (Num (0 * (50 / 111320))) (Num (0 * (50 / 111320))),
      getCellKey (Num (0 * (50 / 111320))) (Num (1 * (50 / 111320))),
      getCellKey (Num (0 * (50 / 111320))) (Num (2 * (50 / 111320))),
      getCellKey (Num (1 * (50 / 111320))) (Num (- 2 * (50 / 111320))),
      getCellKey (Num (1 * (50 / 111320))) (Num (- 1 * (50 / 111320))),
      getCellKey (Num (1 * (50 / 111320))) (Num (0 * (50 / 111320))),
      getCellKey (Num (1 * (50 / 111320))) (Num (1 * (50 / 111320))),
      getCellKey (Num (1 * (50 / 111320))) (Num (2 * (50 / 111320))),
      getCellKey (Num (2 * (50 / 111320))) (Num (- 1 * (50 / 111320))),
      getCellKey (Num (2 * (50 / 111320))) (Num (0 * (50 / 111320))),
      getCellKey (Num (2 * (50 / 111320))) (Num (1 * (50 / 111320)))]"
    unfolding getRevealCells_def Let_def upto_radius cs CELL_SIZE_LAT_Num
    by (simp add: REVEAL_RADIUS_def)
  have k0: "getCellKey (Num (- 2 * (50 / 111320))) (Num (- 1 * (50 / 111320)))
      = Key (Digits True 898) (Digits True 449)"
  proof -
    have "getCellKey (Num (- 2 * (50 / 111320))) (Num (- 1 * (50 / 111320)))
        = Key (Digits ((- 2 :: int) < 0) 898) (Digits ((- 1 :: int) < 0) 449)"
      by (rule getCellKey_digits_pos [OF cos_row_m2]) simp_all
    then show ?thesis by simp
  qed
  have k1: "getCellKey (Num (- 2 * (50 / 111320))) (Num (0 * (50 / 111320)))
      = Key (Digits True 898) (Digits False 0)"
  proof -
    have "getCellKey (Num (- 2 * (50 / 111320))) (Num (0 * (50 / 111320)))
        = Key (Digits ((- 2 :: int) < 0) 898) (Digits ((0 :: int) < 0) 0)"
      by (rule getCellKey_digits_pos [OF cos_row_m2]) simp_all
    then show ?thesis by simp
  qed
  have k2: "getCellKey (Num (- 2 * (50 / 111320))) (Num (1 * (50 / 111320)))
      = Key (Digits True 898) (Digits False 0)"
  proof -
    have "getCellKey (Num (- 2 * (50 / 111320))) (Num (1 * (50 / 111320)))
        = Key (Digits ((- 2 :: int) < 0) 898) (Digits ((0 :: int) < 0) 0)"
      by (rule getCellKey_digits_pos [OF cos_row_m2]) simp_all
    then show ?thesis by simp
  qed
  have k3: "getCellKey (Num (- 1 * (50 / 111320))) (Num (- 2 * (50 / 111320)))
      = Key (Digits True 449) (Digits True 898)"
  proof -
    have "getCellKey (Num (- 1 * (50 / 111320))) (Num (- 2 * (50 / 111320)))
        = Key (Digits ((- 1 :: int) < 0) 449) (Digits ((- 2 :: int) < 0) 898)"
      by (rule getCellKey_digits_pos [OF cos_row_m1]) simp_all
    then show ?thesis by simp
  qed
  have k4: "getCellKey (Num (- 1 * (50 / 111320))) (Num (- 1 * (50 / 111320)))
      = Key (Digits True 449) (Digits True 449)"
  proof -
    have "getCellKey (Num (- 1 * (50 / 111320))) (Num (- 1 * (50 / 111320)))
        = Key (Digits ((- 1 :: int) < 0) 449) (Digits ((- 1 :: int) < 0) 449)"
      by (rule getCellKey_digits_pos [OF cos_row_m1]) simp_all
    then show ?thesis by simp
  qed
  have k5: "getCellKey (Num (- 1 * (50 / 111320))) (Num (0 * (50 / 111320)))
      = Key (Digits True 449) (Digits False 0)"
  proof -
    have "getCellKey (Num (- 1 * (50 / 111320))) (Num (0 * (50 / 111320)))
        = Key (Digits ((- 1 :: int) < 0) 449) (Digits ((0 :: int) < 0) 0)"
      by (rule getCellKey_digits_pos [OF cos_row_m1]) simp_all
    then show ?thesis by simp
  qed
  have k6: "getCellKey (Num (- 1 * (50 / 111320))) (Num (1 * (50 / 111320)))
      = Key (Digits True 449) (Digits False 0)"
  proof -
    have "getCellKey (Num (- 1 * (50 / 111320))) (Num (1 * (50 / 111320)))
        = Key (Digits ((- 1 :: int) < 0) 449) (Digits ((0 :: int) < 0) 0)"
      by (rule getCellKey_digits_pos [OF cos_row_m1]) simp_all
    then show ?thesis by simp
  qed
  have k7: "getCellKey (Num (- 1 * (50 / 111320))) (Num (2 * (50 / 111320)))
      = Key (Digits True 449) (Digits False 449)"
  proof -
    have "getCellKey (Num (- 1 * (50 / 111320))) (Num (2 * (50 / 111320)))
        = Key (Digits ((- 1 :: int) < 0) 449) (Digits ((1 :: int) < 0) 449)"
      by (rule getCellKey_digits_pos [OF cos_row_m1]) simp_all
    then show ?thesis by simp
  qed
  have k8: "getCellKey (Num (0 * (50 / 111320))) (Num (- 2 * (50 / 111320)))
      = Key (Digits False 0) (Digits True 898)"
  proof -
    have "getCellKey (Num (0 * (50 / 111320))) (Num (- 2 * (50 / 111320)))
        = Key (Digits ((0 :: int) < 0) 0) (Digits ((- 2 :: int) < 0) 898)"
      by (rule getCellKey_digits_pos [OF cos_row_0]) simp_all
    then show ?thesis by simp
  qed
  have k9: "getCellKey (Num (0 * (50 / 111320))) (Num (- 1 * (50 / 111320)))
      = Key (Digits False 0) (Digits True 449)"
  proof -
    have "getCellKey (Num (0 * (50 / 111320))) (Num (- 1 * (50 / 111320)))
        = Key (Digits ((0 :: int) < 0) 0) (Digits ((- 1 :: int) < 0) 449)"
      by (rule getCellKey_digits_pos [OF cos_row_0]) simp_all
    then show ?thesis by simp
  qed
  have k10: "getCellKey (Num (0 * (50 / 111320))) (Num (0 * (50 / 111320)))
      = Key (Digits False 0) (Digits False 0)"
  proof -
    have "getCellKey (Num (0 * (50 / 111320))) (Num (0 * (50 / 111320)))
        = Key (Digits ((0 :: int) < 0) 0) (Digits ((0 :: int) < 0) 0)"
      by (rule getCellKey_digits_pos [OF cos_row_0]) simp_all
    then show ?thesis by simp
  qed
  have k11: "getCellKey (Num (0 * (50 / 111320))) (Num (1 * (50 / 111320)))
      = Key (Digits False 0) (Digits False 449)"
  proof -
    have "getCellKey (Num (0 * (50 / 111320))) (Num (1 * (50 / 111320)))
        = Key (Digits ((0 :: int) < 0) 0) (Digits ((1 :: int) < 0) 449)"
      by (rule getCellKey_digits_pos [OF cos_row_0]) simp_all
    then show ?thesis by simp
  qed
  have k12: "getCellKey (Num (0 * (50 / 111320))) (Num (2 * (50 / 111320)))
      = Key (Digits False 0) (Digits False 898)"
  proof -
    have "getCellKey (Num (0 * (50 / 111320))) (Num (2 * (50 / 111320)))
        = Key (Digits ((0 :: int) < 0) 0) (Digits ((2 :: int) < 0) 898)"
      by (rule getCellKey_digits_pos [OF cos_row_0]) simp_all
    then show ?thesis by simp
  qed
  have k13: "getCellKey (Num (1 * (50 / 111320))) (Num (- 2 * (50 / 111320)))
      = Key (Digits False 449) (Digits True 898)"
  proof -
    have "getCellKey (Num (1 * (50 / 111320))) (Num (- 2 * (50 / 111320)))
        = Key (Digits ((1 :: int) < 0) 449) (Digits ((- 2 :: int) < 0) 898)"
      by (rule getCellKey_digits_pos [OF cos_row_1]) simp_all
    then show ?thesis by simp
  qed
  have k14: "getCellKey (Num (1 * (50 / 111320))) (Num (- 1 * (50 / 111320)))
      = Key (Digits False 449) (Digits True 449)"
  proof -
    have "getCellKey (Num (1 * (50 / 111320))) (Num (- 1 * (50 / 111320)))
        = Key (Digits ((1 :: int) < 0) 449) (Digits ((- 1 :: int) < 0) 449)"
      by (rule getCellKey_digits_pos [OF cos_row_1]) simp_all
    then show ?thesis by simp
  qed
  have k15: "getCellKey (Num (1 * (50 / 111320))) (Num (0 * (50 / 111320)))
      = Key (Digits False 449) (Digits False 0)"
  proof -
    have "getCellKey (Num (1 * (50 / 111320))) (Num (0 * (50 / 111320)))
        = Key (Digits ((1 :: int) < 0) 449) (Digits ((0 :: int) < 0) 0)"
      by (rule getCellKey_digits_pos [OF cos_row_1]) simp_all
    then show ?thesis by simp
  qed
  have k16: "getCellKey (Num (1 * (50 / 111320))) (Num (1 * (50 / 111320)))
      = Key (Digits False 449) (Digits False 0)"
  proof -
    have "getCellKey (Num (1 * (50 / 111320))) (Num (1 * (50 / 111320)))
        = Key (Digits ((1 :: int) < 0) 449) (Digits ((0 :: int) < 0) 0)"
      by (rule getCellKey_digits_pos [OF cos_row_1]) simp_all
    then show ?thesis by simp
  qed
  have k17: "getCellKey (Num (1 * (50 / 111320))) (Num (2 * (50 / 111320)))
      = Key (Digits False 449) (Digits False 449)"
  proof -
    have "getCellKey (Num (1 * (50 / 111320))) (Num (2 * (50 / 111320)))
        = Key (Digits ((1 :: int) < 0) 449) (Digits ((1 :: int) < 0) 449)"
      by (rule getCellKey_digits_pos [OF cos_row_1]) simp_all
    then show ?thesis by simp
  qed
  have k18: "getCellKey (Num (2 * (50 / 111320))) (Num (- 1 * (50 / 111320)))
      = Key (Digits False 898) (Digits True 449)"
  proof -
    have "getCellKey (Num (2 * (50 / 111320))) (Num (- 1 * (50 / 111320)))
        = Key (Digits ((2 :: int) < 0) 898) (Digits ((- 1 :: int) < 0) 449)"
      by (rule getCellKey_digits_pos [OF cos_row_2]) simp_all
    then show ?thesis by simp
  qed
  have k19: "getCellKey (Num (2 * (50 / 111320))) (Num (0 * (50 / 111320)))
      = Key (Digits False 898) (Digits False 0)"
  proof -
    have "getCellKey (Num (2 * (50 / 111320))) (Num (0 * (50 / 111320)))
        = Key (Digits ((2 :: int) < 0) 898) (Digits ((0 :: int) < 0) 0)"
      by (rule getCellKey_digits_pos [OF cos_row_2]) simp_all
    then show ?thesis by simp
  qed
  have k20: "getCellKey (Num (2 * (50 / 111320))) (Num (1 * (50 / 111320)))
      = Key (Digits False 898) (Digits False 0)"
  proof -
    have "getCellKey (Num (2 * (50 / 111320))) (Num (1 * (50 / 111320)))
        = Key (Digits ((2 :: int) < 0) 898) (Digits ((0 :: int) < 0) 0)"
      by (rule getCellKey_digits_pos [OF cos_row_2]) simp_all
    then show ?thesis by simp
  qed
  show ?thesis
    unfolding pushed k0 k1 k2 k3 k4 k5 k6 k7 k8 k9 k10 k11 k12 k13 k14 k15 k16 k17 k18 k19 k20 by (rule refl)
qed

lemma key_south_east_of_origin:
  "getCellKey (Num (- (3 / 2) * (50 / 111320))) (Num (3 / 2 * (50 / 111320)))
     = Key (Digits True 898) (Digits False 449)"
proof -
  have "getCellKey (Num (- (3 / 2) * (50 / 111320))) (Num (3 / 2 * (50 / 111320)))
      = Key (Digits ((- 2 :: int) < 0) 898) (Digits ((1 :: int) < 0) 449)"
    by (rule getCellKey_digits_pos [OF cos_row_mhalf]) simp_all
  then show ?thesis by simp
qed

text \<open>
  Claim C3 does not hold of the code. At the position \<open>(0, 0)\<close>, where the cosine is 1, the
  array has 21 entries, one for each pair \<open>(dx, dy)\<close> with \<open>dx * dx + dy * dy \<le> 5\<close>, but they
  are the keys of 17 cells only. In the rows off the equator \<open>getCellKey\<close> divides the
  longitude \<open>dx\<close> steps east by a step that is a little longer than the one the loop
  multiplied by, so the point one step east falls back into column 0 and the point two
  steps east into column 1. The cell \<open>"-0.000898_0.000449"\<close>, which holds the point one step
  and a half east and south of the position, so one column east and two rows south of
  the cell of the position, is not among the keys, though \<open>1 * 1 + 2 * 2 \<le> 5\<close>.
\<close>

theorem getRevealCells_at_origin:
  "0 < cos (0 * PI_double / 180)
   \<and> getRevealCells (Num 0) (Num 0) =
     [Key (Digits True 898) (Digits True 449),
      Key (Digits True 898) (Digits False 0),
      Key (Digits True 898) (Digits False 0),
      Key (Digits True 449) (Digits True 898),
      Key (Digits True 449) (Digits True 449),
      Key (Digits True 449) (Digits False 0),
      Key (Digits True 449) (Digits False 0),
      Key (Digits True 449) (Digits False 449),
      Key (Digits False 0) (Digits True 898),
      Key (Digits False 0) (Digits True 449),
      Key (Digits False 0) (Digits False 0),
      Key (Digits False 0) (Digits False 449),
      Key (Digits False 0) (Digits False 898),
      Key (Digits False 449) (Digits True 898),
      Key (Digits False 449) (Digits True 449),
      Key (Digits False 449) (Digits False 0),
      Key (Digits False 449) (Digits False 0),
      Key (Digits False 449) (Digits False 449),
      Key (Digits False 898) (Digits True 449),
      Key (Digits False 898) (Digits False 0),
      Key (Digits False 898) (Digits False 0)]
   \<and> length (getRevealCells (Num 0) (Num 0)) = 21
   \<and> card {(dx :: int, dy :: int). dx * dx + dy * dy \<le> 5} = 21
   \<and> card (set (getRevealCells (Num 0) (Num 0))) = 17
   \<and> getCellKey (Num (- (3 / 2) * (50 / 111320))) (Num (3 / 2 * (50 / 111320)))
       = Key (Digits True 898) (Digits False 449)
   \<and> Key (Digits True 898) (Digits False 449) \<notin> set (getRevealCells (Num 0) (Num 0))"
proof -
  have "card (set (getRevealCells (Num 0) (Num 0))) = 17"
    unfolding reveal_keys_at_origin by (simp add: card_set)
  moreover have "Key (Digits True 898) (Digits False 449) \<notin> set (getRevealCells (Num 0) (Num 0))"
    unfolding reveal_keys_at_origin by simp
  moreover have "length (getRevealCells (Num 0) (Num 0)) = 21"
    by (rule length_getRevealCells)
  ultimately show ?thesis
    using reveal_keys_at_origin key_south_east_of_origin offsets_card by simp
qed

section \<open>Revealing\<close>

lemma reveal_loop_present:
  "set ks \<subseteq> set cs \<Longrightarrow> reveal_loop ks (cs, ch) = (cs, ch)"
  by (induction ks) (simp_all add: set_has_def)

lemma reveal_loop_set:
  "set (fst (reveal_loop ks (cs, ch))) = set cs \<union> set ks"
proof (induction ks arbitrary: cs ch)
  case Nil
  show ?case by simp
next
  case (Cons k ks)
  show ?case
  proof (cases "k \<in> set cs")
    case True
    then show ?thesis using Cons.IH [of cs ch] by (auto simp: set_has_def)
  next
    case False
    then show ?thesis using Cons.IH [of "cs @ [k]" True] by (auto simp: set_has_def set_add_def)
  qed
qed

lemma reveal_loop_extends:
  "\<exists>ys. fst (reveal_loop ks (cs, ch)) = cs @ ys"
proof (induction ks arbitrary: cs ch)
  case Nil
  show ?case by simp
next
  case (Cons k ks)
  show ?case
  proof (cases "k \<in> set cs")
    case True
    then show ?thesis using Cons.IH [of cs ch] by (simp add: set_has_def)
  next
    case False
    obtain ys where "fst (reveal_loop ks (cs @ [k], True)) = (cs @ [k]) @ ys"
      using Cons.IH [of "cs @ [k]" True] by blast
    then show ?thesis using False by (simp add: set_has_def set_add_def)
  qed
qed

lemma reveal_loop_changed:
  "snd (reveal_loop ks (cs, ch)) = (ch \<or> length cs < length (fst (reveal_loop ks (cs, ch))))"
proof (induction ks arbitrary: cs ch)
  case Nil
  show ?case by simp
next
  case (Cons k ks)
  show ?case
  proof (cases "k \<in> set cs")
    case True
    then show ?thesis using Cons.IH [of cs ch] by (simp add: set_has_def)
  next
    case False
    obtain ys where ys: "fst (reveal_loop ks (cs @ [k], True)) = (cs @ [k]) @ ys"
      using reveal_loop_extends by blast
    show ?thesis using False Cons.IH [of "cs @ [k]" True] ys
      by (simp add: set_has_def set_add_def)
  qed
qed

lemma reveal_loop_distinct:
  "distinct cs \<Longrightarrow> distinct (fst (reveal_loop ks (cs, ch)))"
proof (induction ks arbitrary: cs ch)
  case Nil
  then show ?case by simp
next
  case (Cons k ks)
  show ?case
  proof (cases "k \<in> set cs")
    case True
    then show ?thesis using Cons.IH [of cs ch] Cons.prems by (simp add: set_has_def)
  next
    case False
    then have "distinct (cs @ [k])" using Cons.prems by simp
    then show ?thesis using False Cons.IH [of "cs @ [k]" True]
      by (simp add: set_has_def set_add_def)
  qed
qed

lemma revealAt_unfold:
  "revealAt S lat lng cells ls =
     (let r = reveal_loop (getRevealCells lat lng) (cells, False)
      in (snd r, fst r, if snd r then saveExploredCells S (fst r) ls else ls))"
  by (simp add: revealAt_def Let_def split: prod.splits)

lemma saveExploredCells_calls:
  "setItem_calls (saveExploredCells S cells ls) = setItem_calls ls @ [(STORAGE_KEY, S cells)]"
  by (simp add: saveExploredCells_def localStorage_setItem_def Let_def)

text \<open>
  Claim C2. After \<open>revealAt\<close> at a position, a second \<open>revealAt\<close> at the same position on
  the resulting set returns \<open>changed = false\<close> and leaves the set and the storage as they
  are, with no \<open>setItem\<close> call. In general \<open>changed\<close> is true exactly when the set grew,
  one \<open>setItem\<close> call with the serialised new set is made exactly when \<open>changed\<close> is
  true, and otherwise set and storage are untouched.
\<close>

theorem revealAt_idempotent:
  "(case revealAt S lat lng cells ls of
      (changed, cells', ls') \<Rightarrow>
        revealAt S lat lng cells' ls' = (False, cells', ls')
        \<and> changed = (length cells < length cells')
        \<and> setItem_calls ls' =
            (if changed then setItem_calls ls @ [(STORAGE_KEY, S cells')] else setItem_calls ls)
        \<and> (changed \<or> (cells' = cells \<and> ls' = ls)))"
proof -
  define r where "r = reveal_loop (getRevealCells lat lng) (cells, False)"
  define cells' where "cells' = fst r"
  define ls' where "ls' = (if snd r then saveExploredCells S cells' ls else ls)"
  have first: "revealAt S lat lng cells ls = (snd r, cells', ls')"
    by (simp add: revealAt_unfold r_def cells'_def ls'_def Let_def)
  have "set (getRevealCells lat lng) \<subseteq> set cells'"
    unfolding cells'_def r_def reveal_loop_set by simp
  then have again: "reveal_loop (getRevealCells lat lng) (cells', False) = (cells', False)"
    by (rule reveal_loop_present)
  have second: "revealAt S lat lng cells' ls' = (False, cells', ls')"
    by (simp add: revealAt_unfold again)
  have changed: "snd r = (length cells < length cells')"
    unfolding cells'_def r_def using reveal_loop_changed [of "getRevealCells lat lng" cells False]
    by simp
  have calls: "setItem_calls ls' =
      (if snd r then setItem_calls ls @ [(STORAGE_KEY, S cells')] else setItem_calls ls)"
    by (simp add: ls'_def saveExploredCells_calls)
  have same: "snd r \<or> (cells' = cells \<and> ls' = ls)"
  proof (cases "snd r")
    case True
    then show ?thesis by simp
  next
    case False
    obtain ys where ys: "cells' = cells @ ys"
      unfolding cells'_def r_def using reveal_loop_extends by blast
    from False changed have "length cells' \<le> length cells" by simp
    with ys have "cells' = cells" by simp
    with False show ?thesis by (simp add: ls'_def)
  qed
  show ?thesis
    unfolding first prod.case using second changed calls same by blast
qed

lemma revealAt_grows:
  "(case revealAt S lat lng cells ls of
      (changed, cells', ls') \<Rightarrow>
        set cells \<subseteq> set cells' \<and> length cells \<le> length cells'
        \<and> set cells' = set cells \<union> set (getRevealCells lat lng))"
proof -
  define r where "r = reveal_loop (getRevealCells lat lng) (cells, False)"
  obtain ys where ys: "fst r = cells @ ys"
    unfolding r_def using reveal_loop_extends by blast
  have s: "set (fst r) = set cells \<union> set (getRevealCells lat lng)"
    unfolding r_def by (rule reveal_loop_set)
  have "set cells \<subseteq> set (fst r) \<and> length cells \<le> length (fst r)"
    using ys by simp
  with s show ?thesis
    by (simp add: revealAt_unfold Let_def r_def [symmetric])
qed

text \<open>
  Claim C5. Across any sequence of \<open>revealAt\<close> calls the explored set only grows: every
  cell that was in the set is still in it, and its size does not decrease.
\<close>

theorem revealAt_sequence_monotone:
  "(case revealAt_sequence S positions cells ls of
      (cells', ls') \<Rightarrow>
        set cells \<subseteq> set cells' \<and> card (set cells) \<le> card (set cells')
        \<and> length cells \<le> length cells')"
proof (induction positions arbitrary: cells ls)
  case Nil
  show ?case by simp
next
  case (Cons p positions)
  obtain lat lng where p: "p = (lat, lng)" by (cases p)
  obtain changed cells1 ls1 where step: "revealAt S lat lng cells ls = (changed, cells1, ls1)"
    by (cases "revealAt S lat lng cells ls")
  have one: "set cells \<subseteq> set cells1 \<and> length cells \<le> length cells1"
    using revealAt_grows [where S = S and lat = lat and lng = lng and cells = cells and ls = ls]
    by (simp add: step)
  obtain cells' ls' where rest: "revealAt_sequence S positions cells1 ls1 = (cells', ls')"
    by (cases "revealAt_sequence S positions cells1 ls1")
  have more: "set cells1 \<subseteq> set cells' \<and> card (set cells1) \<le> card (set cells')
      \<and> length cells1 \<le> length cells'"
    using Cons.IH [where cells = cells1 and ls = ls1] by (simp add: rest)
  have "card (set cells) \<le> card (set cells1)"
    using one by (intro card_mono) simp_all
  then show ?case
    using one more by (auto simp: p step rest)
qed


text \<open>
  Claim C10. Where \<open>cos lat > 0\<close>, the key of the position itself is among the keys of
  \<open>getRevealCells\<close> (offset \<open>dx = dy = 0\<close>), so the set contains it after \<open>revealAt\<close>.
\<close>

theorem focal_cell_revealed:
  "0 < cos (lat * PI_double / 180) \<Longrightarrow>
   getCellKey (Num lat) (Num lng) \<in> set (getRevealCells (Num lat) (Num lng))
   \<and> (case revealAt S (Num lat) (Num lng) cells ls of
        (changed, cells', ls') \<Rightarrow> set_has cells' (getCellKey (Num lat) (Num lng)))"
proof -
  assume pos: "0 < cos (lat * PI_double / 180)"
  then have nz: "cos (lat * PI_double / 180) \<noteq> 0" by simp
  have focal: "pushed_key (Num lat) (Num lng) 0 0 = getCellKey (Num lat) (Num lng)"
    by (simp add: pushed_key_def cellSizeLng_Num [OF nz] CELL_SIZE_LAT_Num)
  have "(0 :: int) * 0 + 0 * 0 \<le> REVEAL_RADIUS * REVEAL_RADIUS + 1"
    by (simp add: REVEAL_RADIUS_def)
  then have "pushed_key (Num lat) (Num lng) 0 0 \<in> set (getRevealCells (Num lat) (Num lng))"
    unfolding set_getRevealCells by blast
  then have mem: "getCellKey (Num lat) (Num lng) \<in> set (getRevealCells (Num lat) (Num lng))"
    by (simp only: focal)
  have "set (fst (reveal_loop (getRevealCells (Num lat) (Num lng)) (cells, False))) =
      set cells \<union> set (getRevealCells (Num lat) (Num lng))"
    by (rule reveal_loop_set)
  with mem show ?thesis
    by (simp add: revealAt_unfold Let_def set_has_def)
qed

theorem focal_cell_revealed_witness:
  "0 < cos (0 * PI_double / 180)
   \<and> getCellKey (Num 0) (Num 0) \<in> set (getRevealCells (Num 0) (Num 0))
   \<and> (case revealAt (\<lambda>cells. []) (Num 0) (Num 0) [] empty_storage of
        (changed, cells', ls') \<Rightarrow> set_has cells' (getCellKey (Num 0) (Num 0)))"
  using focal_cell_revealed [of 0 0 "\<lambda>cells. []" "[]" empty_storage] by simp

section \<open>Loading the explored set\<close>

lemma set_add_set: "set (set_add s k) = insert k (set s)"
  by (auto simp: set_add_def)

lemma set_add_distinct: "distinct s \<Longrightarrow> distinct (set_add s k)"
  by (simp add: set_add_def)

lemma foldl_set_add:
  "set (foldl set_add acc xs) = set acc \<union> set xs
   \<and> (distinct acc \<longrightarrow> distinct (foldl set_add acc xs))"
  by (induction xs arbitrary: acc) (auto simp: set_add_set set_add_distinct)

lemma new_Set_set: "set (new_Set xs) = set xs" and new_Set_distinct: "distinct (new_Set xs)"
  using foldl_set_add [of "[]" xs] by (simp_all add: new_Set_def)

text \<open>
  Claim C7. \<open>loadExploredCells\<close> never throws. When the storage is accessible and holds
  under the key a non-empty text that \<open>JSON.parse\<close> reads as an array, it returns the set
  of the array's elements. When access is denied, the key is missing, the text is empty,
  not JSON, or JSON for \<open>null\<close> or for a value that is not iterable, it returns the empty
  set.
\<close>

theorem loadExploredCells_never_throws:
  "(\<exists>cells. loadExploredCells JSON_parse ls = Inr cells)
   \<and> (\<not> denied ls \<and> items ls STORAGE_KEY = Some data \<and> data \<noteq> []
        \<and> JSON_parse data = Inr (Iterable xs)
      \<longrightarrow> loadExploredCells JSON_parse ls = Inr (new_Set xs)
          \<and> set (new_Set xs) = set xs \<and> distinct (new_Set xs))
   \<and> (denied ls \<or> items ls STORAGE_KEY = None
        \<or> (items ls STORAGE_KEY = Some data
            \<and> (data = [] \<or> (\<exists>e. JSON_parse data = Inl e) \<or> JSON_parse data = Inr NotIterable
                \<or> JSON_parse data = Inr Nullish))
      \<longrightarrow> loadExploredCells JSON_parse ls = Inr [])"
proof (intro conjI impI)
  show "\<exists>cells. loadExploredCells JSON_parse ls = Inr cells"
    by (simp add: loadExploredCells_def split: sum.splits)
next
  assume "\<not> denied ls \<and> items ls STORAGE_KEY = Some data \<and> data \<noteq> []
        \<and> JSON_parse data = Inr (Iterable xs)"
  then show "loadExploredCells JSON_parse ls = Inr (new_Set xs)"
    by (simp add: loadExploredCells_def loadExploredCells_try_def localStorage_getItem_def)
next
  show "set (new_Set xs) = set xs" by (rule new_Set_set)
next
  show "distinct (new_Set xs)" by (rule new_Set_distinct)
next
  assume "denied ls \<or> items ls STORAGE_KEY = None
        \<or> (items ls STORAGE_KEY = Some data
            \<and> (data = [] \<or> (\<exists>e. JSON_parse data = Inl e) \<or> JSON_parse data = Inr NotIterable
                \<or> JSON_parse data = Inr Nullish))"
  then show "loadExploredCells JSON_parse ls = Inr []"
    by (auto simp: loadExploredCells_def loadExploredCells_try_def localStorage_getItem_def)
qed

theorem loadExploredCells_never_throws_witness:
  "loadExploredCells sample_parse (empty_storage\<lparr>items := [STORAGE_KEY \<mapsto> ''[1,2,1]'']\<rparr>)
     = Inr [1, 2]
   \<and> loadExploredCells sample_parse (empty_storage\<lparr>items := [STORAGE_KEY \<mapsto> ''{'']\<rparr>) = Inr []
   \<and> loadExploredCells sample_parse (empty_storage\<lparr>denied := True\<rparr>) = Inr []"
proof -
  have valid: "loadExploredCells sample_parse (empty_storage\<lparr>items := [STORAGE_KEY \<mapsto> ''[1,2,1]'']\<rparr>)
      = Inr (new_Set [1, 2, 1])"
    using loadExploredCells_never_throws
      [of sample_parse "empty_storage\<lparr>items := [STORAGE_KEY \<mapsto> ''[1,2,1]'']\<rparr>" "''[1,2,1]''"
        "[1, 2, 1]"]
    by (simp add: empty_storage_def sample_parse_def)
  have corrupt: "loadExploredCells sample_parse (empty_storage\<lparr>items := [STORAGE_KEY \<mapsto> ''{'']\<rparr>)
      = Inr []"
    using loadExploredCells_never_throws
      [of sample_parse "empty_storage\<lparr>items := [STORAGE_KEY \<mapsto> ''{'']\<rparr>" "''{''" "[]"]
    by (simp add: empty_storage_def sample_parse_def)
  have denied: "loadExploredCells sample_parse (empty_storage\<lparr>denied := True\<rparr>) = Inr []"
    using loadExploredCells_never_throws [of sample_parse "empty_storage\<lparr>denied := True\<rparr>" "[]" "[]"]
    by (simp add: empty_storage_def)
  show ?thesis using valid corrupt denied by (simp add: new_Set_def set_add_def)
qed


section \<open>Coverage\<close>

lemma exploredInArea_loop_count:
  "exploredInArea_loop cells cLat cLng latR lngR n =
     n + length (filter (in_area cLat cLng latR lngR) cells)"
proof (induction cells arbitrary: n)
  case Nil
  show ?case by simp
next
  case (Cons key cells)
  obtain a b where key: "key = Key a b" by (cases key)
  show ?case
    unfolding key using Cons.IH by (simp add: in_area_def Let_def)
qed

lemma ranges_Num:
  assumes "cos (lat * PI_double / 180) \<noteq> 0"
  shows "latRange_of (Num r) = Num (r / 111320)"
    and "lngRange_of (Num lat) (Num r) = Num (r / (111320 * cos (lat * PI_double / 180)))"
  using assms
  by (simp_all add: latRange_of_def lngRange_of_def METERS_PER_DEG_LAT_def Math_PI_def)

lemma totalCells_Num:
  assumes "0 < cos (lat * PI_double / 180)"
  shows "totalCells_of (Num lat) (Num r) = Num (of_int (\<lceil>r / 25\<rceil> * \<lceil>r / 25\<rceil>))"
proof -
  have nz: "cos (lat * PI_double / 180) \<noteq> 0" using assms by simp
  have a: "r / 111320 * 2 / (50 / 111320) = r / 25" by simp
  have b: "r / (111320 * cos (lat * PI_double / 180)) * 2 / (50 / (111320 * cos (lat * PI_double / 180)))
      = r / 25"
    using nz by (simp add: field_simps)
  have c: "(50 :: real) / (111320 * cos (lat * PI_double / 180)) \<noteq> 0" using nz by simp
  show ?thesis
    unfolding totalCells_of_def Let_def ranges_Num [OF nz] cellSizeLng_Num [OF nz]
      CELL_SIZE_LAT_Num
    using c by (simp only: jmul.simps jdiv.simps Math_ceil.simps a b if_False) simp
qed

lemma getCoverage_Num:
  assumes "0 < cos (lat * PI_double / 180)"
  shows "getCoverage cells (Num lat) (Num lng) (Num r) =
     (let t = \<lceil>r / 25\<rceil> * \<lceil>r / 25\<rceil>;
          e = exploredInArea_loop cells (Num lat) (Num lng) (latRange_of (Num r))
                (lngRange_of (Num lat) (Num r)) 0
      in if t = 0 then Num 0
         else Num (min 100 (of_int \<lfloor>real e / of_int t * 100 + 1 / 2\<rfloor>)))"
  unfolding getCoverage_def Let_def totalCells_Num [OF assms]
  by simp

text \<open>
  Claim C4, as amended. For every explored set, every centre with \<open>cos lat > 0\<close> and
  every radius \<open>r \<ge> 0\<close>, \<open>getCoverage\<close> returns an integer from 0 to 100; it returns 0
  when the estimated total is 0, and when the explored set is empty; and it returns 100
  only when the explored cells counted in the area are at least 99.5 percent of the
  estimated total, \<open>199 * totalCells \<le> 200 * exploredInArea\<close>.
\<close>

theorem getCoverage_bounds:
  "0 < cos (lat * PI_double / 180) \<Longrightarrow> 0 \<le> r \<Longrightarrow>
   (\<exists>k :: int. getCoverage cells (Num lat) (Num lng) (Num r) = Num (of_int k) \<and> 0 \<le> k \<and> k \<le> 100)
   \<and> (totalCells_of (Num lat) (Num r) = Num 0
        \<longrightarrow> getCoverage cells (Num lat) (Num lng) (Num r) = Num 0)
   \<and> getCoverage [] (Num lat) (Num lng) (Num r) = Num 0
   \<and> (getCoverage cells (Num lat) (Num lng) (Num r) = Num 100
        \<longrightarrow> (\<exists>t. totalCells_of (Num lat) (Num r) = Num t
              \<and> 199 * t \<le> 200 * real (exploredInArea_loop cells (Num lat) (Num lng)
                    (latRange_of (Num r)) (lngRange_of (Num lat) (Num r)) 0)))"
proof -
  assume pos: "0 < cos (lat * PI_double / 180)" and r: "0 \<le> r"
  define t where "t = \<lceil>r / 25\<rceil> * \<lceil>r / 25\<rceil>"
  define e where "e = exploredInArea_loop cells (Num lat) (Num lng) (latRange_of (Num r))
                (lngRange_of (Num lat) (Num r)) 0"
  define v where "v = \<lfloor>real e / of_int t * 100 + 1 / 2\<rfloor>"
  have t0: "0 \<le> t" unfolding t_def using r by simp
  have total: "totalCells_of (Num lat) (Num r) = Num (of_int t)"
    unfolding t_def by (rule totalCells_Num [OF pos])
  have cov: "getCoverage cells (Num lat) (Num lng) (Num r) =
      (if t = 0 then Num 0 else Num (min 100 (of_int v)))"
    unfolding getCoverage_Num [OF pos] Let_def t_def e_def v_def by (rule refl)
  have v0: "0 \<le> v"
  proof -
    have "0 \<le> real e / of_int t" using t0 by simp
    then have "0 \<le> real e / of_int t * 100 + 1 / 2" by simp
    then show ?thesis unfolding v_def by simp
  qed
  have minv: "min (100 :: real) (of_int v) = of_int (min 100 v)" by (simp add: min_def)
  have 1: "\<exists>k :: int. getCoverage cells (Num lat) (Num lng) (Num r) = Num (of_int k)
      \<and> 0 \<le> k \<and> k \<le> 100"
  proof (cases "t = 0")
    case True
    then have "getCoverage cells (Num lat) (Num lng) (Num r) = Num (of_int 0)"
      by (simp add: cov)
    then show ?thesis by (intro exI [of _ 0]) simp
  next
    case False
    then have "getCoverage cells (Num lat) (Num lng) (Num r) = Num (of_int (min 100 v))"
      by (simp only: cov if_False minv)
    moreover have "0 \<le> min 100 v \<and> min 100 v \<le> 100" using v0 by simp
    ultimately show ?thesis by blast
  qed
  have 2: "totalCells_of (Num lat) (Num r) = Num 0
      \<longrightarrow> getCoverage cells (Num lat) (Num lng) (Num r) = Num 0"
    by (simp add: getCoverage_def Let_def)
  have 3: "getCoverage [] (Num lat) (Num lng) (Num r) = Num 0"
    by (simp add: getCoverage_Num [OF pos] Let_def)
  have 4: "getCoverage cells (Num lat) (Num lng) (Num r) = Num 100
        \<longrightarrow> (\<exists>t. totalCells_of (Num lat) (Num r) = Num t \<and> 199 * t \<le> 200 * real e)"
  proof
    assume full: "getCoverage cells (Num lat) (Num lng) (Num r) = Num 100"
    have tpos: "0 < t"
    proof (rule ccontr)
      assume "\<not> 0 < t"
      with t0 have "t = 0" by simp
      with full show False by (simp add: cov)
    qed
    then have "min 100 (of_int v) = (100 :: real)" using full by (simp add: cov)
    then have "100 \<le> v" by (simp add: min_def split: if_splits)
    then have "(100 :: real) \<le> real e / of_int t * 100 + 1 / 2"
      unfolding v_def by (simp add: le_floor_iff)
    then have "199 / 2 \<le> real e * 100 / of_int t" by simp
    then have "199 / 2 * of_int t \<le> real e * 100"
      using tpos by (simp add: pos_le_divide_eq)
    then have "199 * real_of_int t \<le> 200 * real e" by simp
    with total show "\<exists>t. totalCells_of (Num lat) (Num r) = Num t \<and> 199 * t \<le> 200 * real e"
      by blast
  qed
  show ?thesis using 1 2 3 4 unfolding e_def by blast
qed

lemma sample_in_area:
  "filter (in_area (Num 0) (Num 0) (Num (370 / 111320)) (Num (370 / 111320))) sample_cells
     = sample_cells"
proof -
  have "\<forall>k \<in> set sample_cells. in_area (Num 0) (Num 0) (Num (370 / 111320))
      (Num (370 / 111320)) k"
  proof
    fix k assume "k \<in> set sample_cells"
    then obtain i where i: "i < 224" and k: "k = Key (Digits False 0) (Digits False i)"
      by (auto simp: sample_cells_def)
    have "real i \<le> 223" using i by simp
    then have "real i / 10 ^ 6 \<le> 370 / 111320" by simp
    then show "in_area (Num 0) (Num 0) (Num (370 / 111320)) (Num (370 / 111320)) k"
      by (simp add: in_area_def k jge_def jsub_def)
  qed
  then show ?thesis by (simp only: filter_True)
qed

lemma sample_coverage:
  "totalCells_of (Num 0) (Num 370) = Num 225
   \<and> exploredInArea_loop sample_cells (Num 0) (Num 0)
        (latRange_of (Num 370)) (lngRange_of (Num 0) (Num 370)) 0 = 224
   \<and> getCoverage sample_cells (Num 0) (Num 0) (Num 370) = Num 100"
proof -
  have pos: "0 < cos (0 * PI_double / 180)" by simp
  then have nz: "cos (0 * PI_double / 180) \<noteq> 0" by simp
  have total: "totalCells_of (Num 0) (Num 370) = Num 225"
    unfolding totalCells_Num [OF pos] by simp
  have count: "exploredInArea_loop sample_cells (Num 0) (Num 0)
        (latRange_of (Num 370)) (lngRange_of (Num 0) (Num 370)) 0 = 224"
    unfolding ranges_Num [OF nz] exploredInArea_loop_count
    using sample_in_area by (simp add: sample_cells_def)
  have "getCoverage sample_cells (Num 0) (Num 0) (Num 370) = Num 100"
    unfolding getCoverage_Num [OF pos] Let_def count by simp
  with total count show ?thesis by blast
qed

theorem getCoverage_bounds_witness:
  "0 < cos (0 * PI_double / 180) \<and> (0 :: real) \<le> 370
   \<and> getCoverage [] (Num 0) (Num 0) (Num 370) = Num 0
   \<and> totalCells_of (Num 0) (Num 0) = Num 0
   \<and> getCoverage sample_cells (Num 0) (Num 0) (Num 0) = Num 0
   \<and> getCoverage sample_cells (Num 0) (Num 0) (Num 370) = Num 100
   \<and> 199 * 225 \<le> 200 * real (exploredInArea_loop sample_cells (Num 0) (Num 0)
          (latRange_of (Num 370)) (lngRange_of (Num 0) (Num 370)) 0)"
proof -
  have pos: "0 < cos (0 * PI_double / 180)" by simp
  have zero: "totalCells_of (Num 0) (Num 0) = Num 0"
    unfolding totalCells_Num [OF pos] by simp
  have a: "getCoverage [] (Num 0) (Num 0) (Num 370) = Num 0"
    using getCoverage_bounds [of 0 370 "[]" 0] by simp
  have b: "getCoverage sample_cells (Num 0) (Num 0) (Num 0) = Num 0"
    using getCoverage_bounds [of 0 0 sample_cells 0] zero by simp
  have c: "199 * 225 \<le> 200 * real (exploredInArea_loop sample_cells (Num 0) (Num 0)
          (latRange_of (Num 370)) (lngRange_of (Num 0) (Num 370)) 0)"
    using getCoverage_bounds [of 0 370 sample_cells 0] sample_coverage by simp
  show ?thesis using zero a b c sample_coverage by simp
qed

text \<open>
  Claim C4 as stated fails in its last part: around \<open>(0, 0)\<close> with a radius of 370
  metres the estimated total is \<open>15 * 15 = 225\<close> cells; with the 224 keys of
  \<open>sample_cells\<close>, all in the area, the result is \<open>round (99.56) = 100\<close> although fewer
  cells are explored than the estimate counts.
\<close>

theorem getCoverage_full_below_total:
  "0 < cos (0 * PI_double / 180)
   \<and> getCoverage sample_cells (Num 0) (Num 0) (Num 370) = Num 100
   \<and> totalCells_of (Num 0) (Num 370) = Num 225
   \<and> exploredInArea_loop sample_cells (Num 0) (Num 0)
        (latRange_of (Num 370)) (lngRange_of (Num 0) (Num 370)) 0 = 224
   \<and> \<not> jle (totalCells_of (Num 0) (Num 370))
          (Num (real (exploredInArea_loop sample_cells (Num 0) (Num 0)
             (latRange_of (Num 370)) (lngRange_of (Num 0) (Num 370)) 0)))"
  using sample_coverage by simp

section \<open>Viewport culling\<close>














section \<open>Latitudes at and beyond the poles\<close>












section \<open>Keys around the scenario position\<close>

text \<open>
  The cosine at the latitude of the scenario, and at the latitude 20 metres north of it.
\<close>

lemma cos_at_scenario:
  "73494181763 / 100000000000 \<le> cos (426977 / 10 ^ 4 * PI_double / 180)"
  "cos (426977 / 10 ^ 4 * PI_double / 180) \<le> 73494181764 / 100000000000"
proof -
  define cs :: "(real \<times> real) list" where
    "cs = [(95456941017396 / 100000000000000,
        95456941017397 / 100000000000000),
       (98167091345653 / 100000000000000,
        98167091345654 / 100000000000000),
       (99014404164946 / 100000000000000,
        99014404164947 / 100000000000000),
       (99385536952135 / 100000000000000,
        99385536952136 / 100000000000000),
       (99580564074510 / 100000000000000,
        99580564074511 / 100000000000000),
       (99695569583738 / 100000000000000,
        99695569583739 / 100000000000000),
       (99769025753911 / 100000000000000,
        99769025753912 / 100000000000000),
       (99818514358176 / 100000000000000,
        99818514358177 / 100000000000000),
       (1, 1)]"
  have x: "0 < (426977 / 10 ^ 4 * PI_double / 180)" "(426977 / 10 ^ 4 * PI_double / 180) \<le> 2"
    by (simp_all add: PI_double_def)
  have y: "(0 :: real) \<le> 55534606398073 / 100000000000000"
    "55534606398073 / 100000000000000 \<le> (426977 / 10 ^ 4 * PI_double / 180) ^ 2"
    "(426977 / 10 ^ 4 * PI_double / 180) ^ 2 \<le> 55534606398074 / 100000000000000"
    by (simp_all add: PI_double_def power_divide)
  have c: "cos_tail_chk (55534606398073 / 100000000000000)
      (55534606398074 / 100000000000000) 0
      (73494181763173 / 100000000000000,
       73494181763175 / 100000000000000) cs"
    unfolding cs_def cos_tail_chk.simps fst_conv snd_conv by (intro conjI) simp_all
  have r: "4 ^ Suc (length cs) / fact (2 * Suc (length cs)) \<le> (1 / 1000000000000 :: real)"
    by (simp add: cs_def fact_numeral)
  have "(73494181763 / 100000000000 :: real)
      \<le> 73494181763173 / 100000000000000 - 1 / 1000000000000"
    by simp
  also have "\<dots> \<le> cos (426977 / 10 ^ 4 * PI_double / 180)" by (rule cos_certified(1) [OF x y c r])
  finally show "73494181763 / 100000000000 \<le> cos (426977 / 10 ^ 4 * PI_double / 180)" .
  have "cos (426977 / 10 ^ 4 * PI_double / 180)
      \<le> 73494181763175 / 100000000000000 + 1 / 1000000000000"
    by (rule cos_certified(2) [OF x y c r])
  also have "\<dots> \<le> (73494181764 / 100000000000 :: real)" by simp
  finally show "cos (426977 / 10 ^ 4 * PI_double / 180) \<le> 73494181764 / 100000000000" .
qed

lemma cos_at_scenario_north:
  "73493969121 / 100000000000 \<le> cos ((426977 / 10 ^ 4 + 20 / 111320) * PI_double / 180)"
  "cos ((426977 / 10 ^ 4 + 20 / 111320) * PI_double / 180) \<le> 73493969122 / 100000000000"
proof -
  define cs :: "(real \<times> real) list" where
    "cs = [(95456903491785 / 100000000000000,
        95456903491786 / 100000000000000),
       (98167076073290 / 100000000000000,
        98167076073291 / 100000000000000),
       (99014395921667 / 100000000000000,
        99014395921668 / 100000000000000),
       (99385531802797 / 100000000000000,
        99385531802798 / 100000000000000),
       (99580560555474 / 100000000000000,
        99580560555475 / 100000000000000),
       (99695567027705 / 100000000000000,
        99695567027706 / 100000000000000),
       (99769023813667 / 100000000000000,
        99769023813668 / 100000000000000),
       (99818512830872 / 100000000000000,
        99818512830873 / 100000000000000),
       (1, 1)]"
  have x: "0 < ((426977 / 10 ^ 4 + 20 / 111320) * PI_double / 180)" "((426977 / 10 ^ 4 + 20 / 111320) * PI_double / 180) \<le> 2"
    by (simp_all add: PI_double_def)
  have y: "(0 :: real) \<le> 55535073753106 / 100000000000000"
    "55535073753106 / 100000000000000 \<le> ((426977 / 10 ^ 4 + 20 / 111320) * PI_double / 180) ^ 2"
    "((426977 / 10 ^ 4 + 20 / 111320) * PI_double / 180) ^ 2 \<le> 55535073753107 / 100000000000000"
    by (simp_all add: PI_double_def power_divide)
  have c: "cos_tail_chk (55535073753106 / 100000000000000)
      (55535073753107 / 100000000000000) 0
      (73493969121702 / 100000000000000,
       73493969121703 / 100000000000000) cs"
    unfolding cs_def cos_tail_chk.simps fst_conv snd_conv by (intro conjI) simp_all
  have r: "4 ^ Suc (length cs) / fact (2 * Suc (length cs)) \<le> (1 / 1000000000000 :: real)"
    by (simp add: cs_def fact_numeral)
  have "(73493969121 / 100000000000 :: real)
      \<le> 73493969121702 / 100000000000000 - 1 / 1000000000000"
    by simp
  also have "\<dots> \<le> cos ((426977 / 10 ^ 4 + 20 / 111320) * PI_double / 180)" by (rule cos_certified(1) [OF x y c r])
  finally show "73493969121 / 100000000000 \<le> cos ((426977 / 10 ^ 4 + 20 / 111320) * PI_double / 180)" .
  have "cos ((426977 / 10 ^ 4 + 20 / 111320) * PI_double / 180)
      \<le> 73493969121703 / 100000000000000 + 1 / 1000000000000"
    by (rule cos_certified(2) [OF x y c r])
  also have "\<dots> \<le> (73493969122 / 100000000000 :: real)" by simp
  finally show "cos ((426977 / 10 ^ 4 + 20 / 111320) * PI_double / 180) \<le> 73493969122 / 100000000000" .
qed

lemma toFixed6_far:
  assumes "1 / 10 ^ 6 < \<bar>x - x'\<bar>"
  shows "toFixed6 (Num x) \<noteq> toFixed6 (Num x')"
proof
  assume eq: "toFixed6 (Num x) = toFixed6 (Num x')"
  obtain r where r: "parseFloat (toFixed6 (Num x)) = Num r" and rc: "\<bar>r - x\<bar> \<le> 1 / (2 * 10 ^ 6)"
    using parse_toFixed6 [of x] by blast
  obtain r' where r': "parseFloat (toFixed6 (Num x')) = Num r'"
    and rc': "\<bar>r' - x'\<bar> \<le> 1 / (2 * 10 ^ 6)"
    using parse_toFixed6 [of x'] by blast
  have "r = r'" using r r' eq by simp
  then have "\<bar>x - x'\<bar> \<le> \<bar>r - x\<bar> + \<bar>r' - x'\<bar>" by linarith
  also have "\<dots> \<le> 1 / (2 * 10 ^ 6) + 1 / (2 * 10 ^ 6)" using rc rc' by (rule add_mono)
  finally have "\<bar>x - x'\<bar> \<le> 1 / 10 ^ 6" by simp
  with assms show False by simp
qed

lemma getCellKey_lat_part:
  "\<exists>b. getCellKey (Num lat) lng =
     Key (toFixed6 (Num (of_int \<lfloor>lat / (50 / 111320)\<rfloor> * (50 / 111320)))) b"
  by (simp add: getCellKey_def CELL_SIZE_LAT_Num Let_def)

lemma abs_scale:
  fixes a b t :: real
  assumes "0 < t"
  shows "\<bar>a * t - b * t\<bar> = \<bar>a - b\<bar> * t"
  using assms by (simp add: left_diff_distrib [symmetric] abs_mult)

lemma rows_differ:
  assumes "\<lfloor>lat / (50 / 111320)\<rfloor> \<noteq> \<lfloor>lat' / (50 / 111320)\<rfloor>"
  shows "getCellKey (Num lat) lng \<noteq> getCellKey (Num lat') lng'"
proof -
  define k where "k = \<lfloor>lat / (50 / 111320)\<rfloor>"
  define k' where "k' = \<lfloor>lat' / (50 / 111320)\<rfloor>"
  have "k \<noteq> k'" using assms by (simp add: k_def k'_def)
  then have "1 \<le> \<bar>k - k'\<bar>" by simp
  then have "1 \<le> \<bar>real_of_int k - real_of_int k'\<bar>"
    by (metis of_int_1_le_iff of_int_abs of_int_diff)
  then have "50 / 111320 \<le> \<bar>real_of_int k - real_of_int k'\<bar> * (50 / 111320)" by simp
  also have "\<dots> = \<bar>real_of_int k * (50 / 111320) - real_of_int k' * (50 / 111320)\<bar>"
    by (rule abs_scale [symmetric]) simp
  finally have "50 / 111320 \<le> \<bar>real_of_int k * (50 / 111320) - real_of_int k' * (50 / 111320)\<bar>" .
  moreover have "(1 :: real) / 10 ^ 6 < 50 / 111320" by simp
  ultimately have "1 / 10 ^ 6 < \<bar>real_of_int k * (50 / 111320) - real_of_int k' * (50 / 111320)\<bar>"
    by (rule less_le_trans [rotated])
  then have "toFixed6 (Num (real_of_int k * (50 / 111320)))
      \<noteq> toFixed6 (Num (real_of_int k' * (50 / 111320)))"
    by (rule toFixed6_far)
  then show ?thesis
    using getCellKey_lat_part [of lat lng] getCellKey_lat_part [of lat' lng']
    unfolding k_def k'_def by auto
qed

lemma scenario_row: "\<lfloor>scenario_lat / (50 / 111320)\<rfloor> = 95062"
  by (simp add: scenario_lat_def)

lemma south_row: "\<lfloor>(scenario_lat - 20 / 111320) / (50 / 111320)\<rfloor> = 95061"
  by (simp add: scenario_lat_def)

lemma cos_scenario:
  "7349417 / 10 ^ 7 \<le> cos (scenario_lat * PI_double / 180)"
  "cos (scenario_lat * PI_double / 180) \<le> 7349423 / 10 ^ 7"
proof -
  have "(7349417 / 10 ^ 7 :: real) \<le> 73494181763 / 100000000000" by simp
  also have "\<dots> \<le> cos (scenario_lat * PI_double / 180)"
    unfolding scenario_lat_def by (rule cos_at_scenario(1))
  finally show "7349417 / 10 ^ 7 \<le> cos (scenario_lat * PI_double / 180)" .
  have "cos (scenario_lat * PI_double / 180) \<le> 73494181764 / 100000000000"
    unfolding scenario_lat_def by (rule cos_at_scenario(2))
  also have "\<dots> \<le> (7349423 / 10 ^ 7 :: real)" by simp
  finally show "cos (scenario_lat * PI_double / 180) \<le> 7349423 / 10 ^ 7" .
qed

text \<open>
  Two parts of the scenario hold of the code: the point 20 metres due east of the position
  has the key of the position, and every point 200 metres away from it, in any direction,
  has another key.
\<close>

lemma east_same_key:
  "getCellKey (Num scenario_lat)
     (Num (scenario_lng + 20 / (111320 * cos (scenario_lat * PI_double / 180))))
   = getCellKey (Num scenario_lat) (Num scenario_lng)"
proof -
  define C where "C = cos (scenario_lat * PI_double / 180)"
  have C1: "7349417 / 10 ^ 7 \<le> C" and C2: "C \<le> 7349423 / 10 ^ 7"
    unfolding C_def by (rule cos_scenario)+
  then have Cpos: "0 < C" by simp
  then have nz: "cos (scenario_lat * PI_double / 180) \<noteq> 0" by (simp add: C_def)
  define c where "c = 50 / (111320 * C)"
  have cpos: "0 < c" using Cpos by (simp add: c_def)
  define v where "v = scenario_lng * 111320 / 50 * C"
  have q: "scenario_lng / c = v"
    using Cpos by (simp add: c_def v_def)
  have qe: "(scenario_lng + 20 / (111320 * C)) / c = v + 2 / 5"
    using Cpos by (simp add: c_def v_def field_simps)
  have lo: "38161 \<le> v"
    unfolding v_def using C1 by (simp add: scenario_lng_def)
  have hi: "v + 2 / 5 < 38162"
    unfolding v_def using C2 by (simp add: scenario_lng_def)
  have f0: "\<lfloor>scenario_lng / c\<rfloor> = 38161"
    unfolding q floor_eq_iff using lo hi by simp
  have fe: "\<lfloor>(scenario_lng + 20 / (111320 * C)) / c\<rfloor> = 38161"
    unfolding qe floor_eq_iff using lo hi by simp
  show ?thesis
    unfolding getCellKey_Num [OF nz] C_def [symmetric] c_def [symmetric] f0 fe by (rule refl)
qed


lemma cos_lipschitz:
  fixes a b :: real
  shows "\<bar>cos a - cos b\<bar> \<le> \<bar>a - b\<bar>"
proof -
  have "\<bar>cos a - cos b\<bar> = 2 * \<bar>sin ((a + b) / 2)\<bar> * \<bar>sin ((b - a) / 2)\<bar>"
    by (simp add: cos_diff_cos abs_mult)
  also have "\<dots> \<le> 2 * 1 * \<bar>(b - a) / 2\<bar>"
    by (intro mult_mono abs_sin_x_le_abs_x) simp_all
  finally show ?thesis by simp
qed

lemma square_bound:
  fixes x b :: real
  assumes "\<bar>x\<bar> \<le> b"
  shows "x ^ 2 \<le> b ^ 2"
proof -
  have "\<bar>x\<bar> ^ 2 \<le> b ^ 2" using assms by (intro power_mono) simp_all
  then show ?thesis by simp
qed

lemma far_point_differs:
  assumes far: "sq_metres scenario_lat scenario_lng lat' lng' = 200 ^ 2"
  shows "getCellKey (Num lat') (Num lng') \<noteq> getCellKey (Num scenario_lat) (Num scenario_lng)"
proof (cases "\<lfloor>lat' / (50 / 111320)\<rfloor> = \<lfloor>scenario_lat / (50 / 111320)\<rfloor>")
  case False
  then show ?thesis by (rule rows_differ)
next
  case True
  define C where "C = cos (scenario_lat * PI_double / 180)"
  define C' where "C' = cos (lat' * PI_double / 180)"
  define dy where "dy = (lat' - scenario_lat) * 111320"
  define dx where "dx = (lng' - scenario_lng) * (111320 * C)"
  have C1: "7349417 / 10 ^ 7 \<le> C" and C2: "C \<le> 7349423 / 10 ^ 7"
    unfolding C_def by (rule cos_scenario)+
  have Cpos: "0 < C" using C1 by simp
  \<comment> \<open>the latitude stays in the row, so the displacement is mostly east-west\<close>
  have row: "\<lfloor>lat' / (50 / 111320)\<rfloor> = 95062" using True scenario_row by simp
  then have "95062 \<le> lat' / (50 / 111320) \<and> lat' / (50 / 111320) < 95063"
    by (simp add: floor_eq_iff)
  then have "95062 * 50 \<le> lat' * 111320 \<and> lat' * 111320 < 95063 * 50"
    by (simp add: field_simps)
  then have dyb: "- 43 \<le> dy \<and> dy \<le> 43"
    by (simp add: dy_def scenario_lat_def algebra_simps)
  then have "dy ^ 2 \<le> 43 ^ 2" by (intro square_bound) (simp add: abs_le_iff)
  moreover have "dy ^ 2 + dx ^ 2 = 200 ^ 2"
    using far by (simp add: sq_metres_def dy_def dx_def C_def)
  ultimately have dx2: "195 ^ 2 < dx ^ 2" by simp
  have dxb: "195 < \<bar>dx\<bar>"
  proof (rule ccontr)
    assume "\<not> 195 < \<bar>dx\<bar>"
    then have "\<bar>dx\<bar> \<le> 195" by simp
    then have "dx ^ 2 \<le> 195 ^ 2" by (rule square_bound)
    with dx2 show False by simp
  qed
  \<comment> \<open>the cosine hardly changes within the row\<close>
  have "\<bar>C' - C\<bar> \<le> \<bar>lat' * PI_double / 180 - scenario_lat * PI_double / 180\<bar>"
    unfolding C_def C'_def by (rule cos_lipschitz)
  also have "lat' * PI_double / 180 - scenario_lat * PI_double / 180
      = dy * (PI_double / (111320 * 180))"
    unfolding dy_def by (simp add: algebra_simps)
  also have "\<bar>dy * (PI_double / (111320 * 180))\<bar> = \<bar>dy\<bar> * (PI_double / (111320 * 180))"
    by (simp add: abs_mult PI_double_def)
  also have "\<dots> \<le> 43 * (4 / (111320 * 180))"
    using dyb by (intro mult_mono) (simp_all add: abs_le_iff PI_double_def)
  finally have "\<bar>C' - C\<bar> \<le> 1 / 100000" by simp
  moreover have "7349417 / 10000000 \<le> C" using C1 by simp
  ultimately have C'1: "73 / 100 \<le> C'" by linarith
  then have C'pos: "0 < C'" by simp
  have nz: "cos (scenario_lat * PI_double / 180) \<noteq> 0" using Cpos by (simp add: C_def)
  have nz': "cos (lat' * PI_double / 180) \<noteq> 0" using C'pos by (simp add: C'_def)
  define c where "c = 50 / (111320 * C)"
  define c' where "c' = 50 / (111320 * C')"
  have cpos: "0 < c" using Cpos by (simp add: c_def)
  have c'pos: "0 < c'" using C'pos by (simp add: c'_def)
  have clo: "50 / (111320 * (7349423 / 10 ^ 7)) \<le> c"
    unfolding c_def using C2 Cpos by (intro divide_left_mono mult_left_mono) simp_all
  have c'hi: "c' \<le> 50 / (111320 * (73 / 100))"
    unfolding c'_def using C'1 by (intro divide_left_mono mult_left_mono) simp_all
  have step: "lng' - scenario_lng = dx * (c / 50)"
    using Cpos by (simp add: dx_def c_def)
  define q where "q = of_int \<lfloor>scenario_lng / c\<rfloor> * c"
  define q' where "q' = of_int \<lfloor>lng' / c'\<rfloor> * c'"
  have q1: "q \<le> scenario_lng" and q2: "scenario_lng < q + c"
    unfolding q_def using floor_quantize_bounds [OF cpos, of scenario_lng] by simp_all
  have q'1: "q' \<le> lng'" and q'2: "lng' < q' + c'"
    unfolding q'_def using floor_quantize_bounds [OF c'pos, of lng'] by simp_all
  have apart: "1 / 10 ^ 6 < \<bar>q' - q\<bar>"
  proof (cases "0 \<le> dx")
    case True
    with dxb have "195 < dx" by simp
    then have "195 * (c / 50) < dx * (c / 50)"
      using cpos by (intro mult_strict_right_mono) simp_all
    with step have "scenario_lng + 195 * (c / 50) < lng'" by simp
    with q1 q'2 have "195 * (c / 50) - c' < q' - q" by linarith
    moreover have "1 / 10 ^ 6 < 195 * (c / 50) - c'"
      using clo c'hi by simp
    ultimately show ?thesis by linarith
  next
    case False
    with dxb have "dx < - 195" by simp
    then have "dx * (c / 50) < - 195 * (c / 50)"
      using cpos by (intro mult_strict_right_mono) simp_all
    with step have "lng' < scenario_lng - 195 * (c / 50)" by simp
    with q2 q'1 have "195 * (c / 50) - c < q - q'" by linarith
    moreover have "1 / 10 ^ 6 < 195 * (c / 50) - c"
      using clo by simp
    ultimately show ?thesis by linarith
  qed
  then have "toFixed6 (Num q') \<noteq> toFixed6 (Num q)" by (rule toFixed6_far)
  then show ?thesis
    unfolding getCellKey_Num [OF nz] getCellKey_Num [OF nz'] C_def [symmetric] C'_def [symmetric]
      c_def [symmetric] c'_def [symmetric] q_def [symmetric] q'_def [symmetric]
    by simp
qed

text \<open>
  The position lies 8 metres north of the south edge of its row of cells
  (\<open>42.6977 / (50 / 111320) = 95062.16\<close>), so the point 20 metres due south is in the next
  row (\<open>95061.76\<close>) and has another key.
\<close>

lemma key_differs_20m_south:
  "sq_metres scenario_lat scenario_lng (scenario_lat - 20 / 111320) scenario_lng = 20 ^ 2
   \<and> getCellKey (Num (scenario_lat - 20 / 111320)) (Num scenario_lng)
       \<noteq> getCellKey (Num scenario_lat) (Num scenario_lng)"
proof -
  have "\<lfloor>(scenario_lat - 20 / 111320) / (50 / 111320)\<rfloor> \<noteq> \<lfloor>scenario_lat / (50 / 111320)\<rfloor>"
    unfolding scenario_row south_row by simp
  then have "getCellKey (Num (scenario_lat - 20 / 111320)) (Num scenario_lng)
       \<noteq> getCellKey (Num scenario_lat) (Num scenario_lng)"
    by (rule rows_differ)
  then show ?thesis by (simp add: sq_metres_def)
qed

lemma key_scenario:
  "getCellKey (Num scenario_lat) (Num scenario_lng)
     = Key (Digits False 42697628) (Digits False 23321882)"
proof -
  have "getCellKey (Num (426977 / 10 ^ 4)) (Num (233219 / 10 ^ 4))
      = Key (Digits ((95062 :: int) < 0) 42697628) (Digits ((38161 :: int) < 0) 23321882)"
    by (rule getCellKey_digits_pos [OF cos_at_scenario]) simp_all
  then show ?thesis by (simp add: scenario_lat_def scenario_lng_def)
qed

lemma key_scenario_north:
  "getCellKey (Num (scenario_lat + 20 / 111320)) (Num scenario_lng)
     = Key (Digits False 42697628) (Digits False 23321338)"
proof -
  have "getCellKey (Num (426977 / 10 ^ 4 + 20 / 111320)) (Num (233219 / 10 ^ 4))
      = Key (Digits ((95062 :: int) < 0) 42697628) (Digits ((38160 :: int) < 0) 23321338)"
    by (rule getCellKey_digits_pos [OF cos_at_scenario_north]) simp_all
  then show ?thesis unfolding scenario_lat_def scenario_lng_def by simp
qed

lemma scenario_cell_bounds:
  "\<exists>e. getCellBounds (Key (Digits False 42697628) (Digits False 23321882)) =
     \<lparr>south = Num (42697628 / 10 ^ 6), north = Num (42697628 / 10 ^ 6 + 50 / 111320),
      west = Num (23321882 / 10 ^ 6), east = Num e\<rparr>
     \<and> 23321882 / 10 ^ 6 + 50 / 111320 \<le> e"
proof -
  define c where "c = cos (42697628 / 10 ^ 6 * PI_double / 180)"
  have cpos: "0 < c"
    unfolding c_def by (rule cos_pos_up_to_one) (simp_all add: PI_double_def)
  have c1: "c \<le> 1" unfolding c_def by (rule cos_le_one)
  have nz: "cos (42697628 / 10 ^ 6 * PI_double / 180) \<noteq> 0" using cpos by (simp add: c_def)
  have "111320 * c \<le> 111320" using c1 by simp
  then have "50 / 111320 \<le> 50 / (111320 * c)"
    using cpos by (intro divide_left_mono) simp_all
  then have "23321882 / 10 ^ 6 + 50 / 111320 \<le> 23321882 / 10 ^ 6 + 50 / (111320 * c)"
    by simp
  moreover have "getCellBounds (Key (Digits False 42697628) (Digits False 23321882)) =
     \<lparr>south = Num (42697628 / 10 ^ 6), north = Num (42697628 / 10 ^ 6 + 50 / 111320),
      west = Num (23321882 / 10 ^ 6), east = Num (23321882 / 10 ^ 6 + 50 / (111320 * c))\<rparr>"
    unfolding getCellBounds_unfold c_def using cellSizeLng_Num [OF nz]
    by (simp add: CELL_SIZE_LAT_Num)
  ultimately show ?thesis by blast
qed

text \<open>
  Claim C8 does not hold of the code. The point 20 metres due north of the position
  \<open>(42.6977, 23.3219)\<close> is in the same row of cells and inside the rectangle that
  \<open>getCellBounds\<close> gives for the key of the position, \<open>"42.697628_23.321882"\<close>, yet its own
  key is \<open>"42.697628_23.321338"\<close>: \<open>getCellKey\<close> takes the longitude step at the latitude
  it is given, not at that of the row, so within one row the columns shift with the
  latitude, here by one column over 20 metres (column 38160 against 38161).
\<close>

theorem scenario_key_differs_20m_north:
  "sq_metres scenario_lat scenario_lng (scenario_lat + 20 / 111320) scenario_lng = 20 ^ 2
   \<and> getCellKey (Num scenario_lat) (Num scenario_lng)
       = Key (Digits False 42697628) (Digits False 23321882)
   \<and> getCellKey (Num (scenario_lat + 20 / 111320)) (Num scenario_lng)
       = Key (Digits False 42697628) (Digits False 23321338)
   \<and> getCellKey (Num (scenario_lat + 20 / 111320)) (Num scenario_lng)
       \<noteq> getCellKey (Num scenario_lat) (Num scenario_lng)
   \<and> \<lfloor>(scenario_lat + 20 / 111320) / (50 / 111320)\<rfloor> = \<lfloor>scenario_lat / (50 / 111320)\<rfloor>
   \<and> (let b = getCellBounds (getCellKey (Num scenario_lat) (Num scenario_lng))
      in jle (south b) (Num (scenario_lat + 20 / 111320))
         \<and> jlt (Num (scenario_lat + 20 / 111320)) (north b)
         \<and> jle (west b) (Num scenario_lng)
         \<and> jlt (Num scenario_lng) (east b))"
proof -
  obtain e where b: "getCellBounds (Key (Digits False 42697628) (Digits False 23321882)) =
     \<lparr>south = Num (42697628 / 10 ^ 6), north = Num (42697628 / 10 ^ 6 + 50 / 111320),
      west = Num (23321882 / 10 ^ 6), east = Num e\<rparr>"
    and e: "23321882 / 10 ^ 6 + 50 / 111320 \<le> e"
    using scenario_cell_bounds by blast
  have "(233219 / 10 ^ 4 :: real) < 23321882 / 10 ^ 6 + 50 / 111320" by simp
  then have lt: "scenario_lng < e" using e by (simp add: scenario_lng_def)
  have inside: "let b = getCellBounds (getCellKey (Num scenario_lat) (Num scenario_lng))
      in jle (south b) (Num (scenario_lat + 20 / 111320))
         \<and> jlt (Num (scenario_lat + 20 / 111320)) (north b)
         \<and> jle (west b) (Num scenario_lng)
         \<and> jlt (Num scenario_lng) (east b)"
    unfolding key_scenario b Let_def using lt by (simp add: scenario_lat_def scenario_lng_def)
  have row: "\<lfloor>(scenario_lat + 20 / 111320) / (50 / 111320)\<rfloor> = \<lfloor>scenario_lat / (50 / 111320)\<rfloor>"
    by (simp add: scenario_lat_def)
  have dist: "sq_metres scenario_lat scenario_lng (scenario_lat + 20 / 111320) scenario_lng = 20 ^ 2"
    by (simp add: sq_metres_def)
  have ne: "getCellKey (Num (scenario_lat + 20 / 111320)) (Num scenario_lng)
       \<noteq> getCellKey (Num scenario_lat) (Num scenario_lng)"
    unfolding key_scenario key_scenario_north by simp
  show ?thesis using dist key_scenario key_scenario_north ne row inside by (intro conjI)
qed


end
